theory Spec2Isabelle
  imports Main "HOL-Library.AList" "HOL-Library.Word"
begin

section \<open>JavaScript values of a parsed configuration\<close>

text \<open>
  The configuration handed to \<^verbatim>\<open>ActorSchemaManager\<close> is the tree a YAML parser
  produces: scalars, sequences and mappings. \<open>JUndefined\<close> is what reading a missing
  property gives. An object is the list of its own properties in the order in which
  they were inserted, which for a parsed mapping is the order of the document; its
  keys are pairwise distinct, and its prototype is \<^verbatim>\<open>Object.prototype\<close>.

  Scope of the model: a number is a safe integer (54 bits, signed: from \<open>-2^53\<close> to
  \<open>2^53 - 1\<close>), for which the decimal numeral is what JavaScript prints; strings
  are ASCII.
\<close>

datatype jv =
    JUndefined
  | JNull
  | JBool bool
  | JNum "54 word"
  | JStr string
  | JArr "jv list"
  | JObj "(string \<times> jv) list"

datatype error = TypeError

text \<open>\<^verbatim>\<open>!!v\<close>: the values that count as true in a condition or on the left of \<^verbatim>\<open>||\<close>.\<close>

fun truthy :: "jv \<Rightarrow> bool" where
  "truthy JUndefined = False"
| "truthy JNull = False"
| "truthy (JBool b) = b"
| "truthy (JNum n) = (n \<noteq> 0)"
| "truthy (JStr s) = (s \<noteq> [])"
| "truthy (JArr xs) = True"
| "truthy (JObj kvs) = True"

text \<open>Reading a property of \<^verbatim>\<open>null\<close> or \<^verbatim>\<open>undefined\<close> raises a TypeError.\<close>

fun nullish :: "jv \<Rightarrow> bool" where
  "nullish JUndefined = True"
| "nullish JNull = True"
| "nullish v = False"

text \<open>\<^verbatim>\<open>a || b\<close> on values (used where evaluating \<open>b\<close> cannot raise).\<close>

definition or_else :: "jv \<Rightarrow> jv \<Rightarrow> jv" where
  "or_else a b = (if truthy a then a else b)"

subsection \<open>Decimal numerals and string conversion\<close>

definition digit_char :: "nat \<Rightarrow> char" where
  "digit_char d = ''0123456789'' ! d"

function nat_to_string :: "nat \<Rightarrow> string" where
  "nat_to_string n =
     (if n < 10 then [digit_char n]
      else nat_to_string (n div 10) @ [digit_char (n mod 10)])"
  by pat_completeness auto
termination
  by (relation "measure id") auto

declare nat_to_string.simps [simp del]

definition int_to_string :: "int \<Rightarrow> string" where
  "int_to_string i =
     (if i < 0 then CHR ''-'' # nat_to_string (nat (- i)) else nat_to_string (nat i))"

fun join :: "string \<Rightarrow> string list \<Rightarrow> string" where
  "join sep [] = []"
| "join sep [w] = w"
| "join sep (w # ws) = w @ sep @ join sep ws"

text \<open>
  \<^verbatim>\<open>String(v)\<close>, as a template literal and a computed property name apply it.
  An array joins its elements with commas, \<^verbatim>\<open>null\<close> and \<^verbatim>\<open>undefined\<close> elements
  as the empty string. An object is converted by the inherited \<^verbatim>\<open>toString\<close>; when
  it has an own property \<^verbatim>\<open>toString\<close>, which in a parsed configuration is data and
  cannot be called, no conversion is left and a TypeError is raised.
\<close>

fun to_string :: "jv \<Rightarrow> error + string"
  and elements_to_strings :: "jv list \<Rightarrow> error + string list" where
  "to_string JUndefined = Inr ''undefined''"
| "to_string JNull = Inr ''null''"
| "to_string (JBool b) = Inr (if b then ''true'' else ''false'')"
| "to_string (JNum n) = Inr (int_to_string (sint n))"
| "to_string (JStr s) = Inr s"
| "to_string (JArr xs) =
     (case elements_to_strings xs of
        Inl e \<Rightarrow> Inl e
      | Inr ws \<Rightarrow> Inr (join '','' ws))"
| "to_string (JObj kvs) =
     (if ''toString'' \<in> fst ` set kvs then Inl TypeError else Inr ''[object Object]'')"
| "elements_to_strings [] = Inr []"
| "elements_to_strings (x # xs) =
     (case (if nullish x then Inr [] else to_string x) of
        Inl e \<Rightarrow> Inl e
      | Inr w \<Rightarrow>
         (case elements_to_strings xs of
            Inl e \<Rightarrow> Inl e
          | Inr ws \<Rightarrow> Inr (w # ws)))"

subsection \<open>Own properties and their enumeration\<close>

text \<open>
  The own properties of a value that is not \<^verbatim>\<open>null\<close> or \<^verbatim>\<open>undefined\<close>, in
  insertion order. Arrays and strings have their indices as keys; numbers and
  booleans have none.
\<close>

fun own_props :: "jv \<Rightarrow> (string \<times> jv) list" where
  "own_props (JObj kvs) = kvs"
| "own_props (JArr xs) = zip (map nat_to_string [0..<length xs]) xs"
| "own_props (JStr s) = zip (map nat_to_string [0..<length s]) (map (\<lambda>c. JStr [c]) s)"
| "own_props v = []"

text \<open>
  A key is an array index when it is the canonical decimal numeral of a number
  below \<open>2^32 - 1\<close>. \<^verbatim>\<open>Object.keys\<close>, \<^verbatim>\<open>Object.entries\<close>, \<^verbatim>\<open>{...v}\<close> and
  \<^verbatim>\<open>Object.assign\<close> visit the array indices first, in ascending numeric order, and
  then the other keys in insertion order.
\<close>

definition is_digit :: "char \<Rightarrow> bool" where
  "is_digit c \<longleftrightarrow> c \<in> set ''0123456789''"

definition digit_value :: "char \<Rightarrow> nat" where
  "digit_value c =
     (case map_of (zip ''0123456789'' [0, 1, 2, 3, 4, 5, 6, 7, 8, 9]) c of
        Some d \<Rightarrow> d
      | None \<Rightarrow> 0)"

definition index_value :: "string \<Rightarrow> nat" where
  "index_value s = foldl (\<lambda>n c. 10 * n + digit_value c) 0 s"

fun is_array_index :: "string \<Rightarrow> bool" where
  "is_array_index [] = False"
| "is_array_index (c # cs) =
     (is_digit c \<and> list_all is_digit cs \<and> (c \<noteq> CHR ''0'' \<or> cs = [])
      \<and> index_value (c # cs) < 4294967295)"

definition key_order :: "(string \<times> jv) list \<Rightarrow> (string \<times> jv) list" where
  "key_order kvs =
     sort_key (\<lambda>(k, v). index_value k) (filter (\<lambda>(k, v). is_array_index k) kvs)
     @ filter (\<lambda>(k, v). \<not> is_array_index k) kvs"

text \<open>
  \<^verbatim>\<open>Object.entries(v)\<close> for a value that is not \<^verbatim>\<open>null\<close> or \<^verbatim>\<open>undefined\<close>;
  the same properties, in the same order, are what \<^verbatim>\<open>{...v}\<close> and
  \<^verbatim>\<open>Object.assign(t, v)\<close> copy.
\<close>

fun own_entries :: "jv \<Rightarrow> (string \<times> jv) list" where
  "own_entries (JObj kvs) = key_order kvs"
| "own_entries v = own_props v"

text \<open>
  \<^verbatim>\<open>v.k\<close> for a value \<open>v\<close> that is not \<^verbatim>\<open>null\<close> or \<^verbatim>\<open>undefined\<close> and one of
  the fixed keys the code reads (\<^verbatim>\<open>dataset\<close>, \<^verbatim>\<open>fields\<close>, \<^verbatim>\<open>type\<close>, ...): the
  own property, else \<^verbatim>\<open>undefined\<close>. None of these keys is a member of a built-in
  prototype, so nothing is inherited for them. (\<^verbatim>\<open>length\<close>, which is not among
  them, is the one own property of an array or string that is not enumerated.)
\<close>

fun length_prop :: "jv \<Rightarrow> jv option" where
  "length_prop (JArr xs) = Some (JNum (of_nat (length xs)))"
| "length_prop (JStr s) = Some (JNum (of_nat (length s)))"
| "length_prop v = None"

definition own_member :: "jv \<Rightarrow> string \<Rightarrow> jv option" where
  "own_member v k =
     (case map_of (own_props v) k of
        Some x \<Rightarrow> Some x
      | None \<Rightarrow> (if k = ''length'' then length_prop v else None))"

definition get_prop :: "jv \<Rightarrow> string \<Rightarrow> jv" where
  "get_prop v k = (case own_member v k of Some x \<Rightarrow> x | None \<Rightarrow> JUndefined)"

text \<open>\<^verbatim>\<open>v?.k\<close>\<close>

definition opt_prop :: "jv \<Rightarrow> string \<Rightarrow> jv" where
  "opt_prop v k = (if nullish v then JUndefined else get_prop v k)"

subsection \<open>Reading under a key the configuration supplies\<close>

text \<open>
  \<^verbatim>\<open>v[k]\<close> with a key \<open>k\<close> taken from the configuration walks the prototype
  chain: a name that is not an own property may be a member of a built-in prototype.
  Such a member is a function (or, for \<^verbatim>\<open>__proto__\<close>, the prototype object): it is
  truthy and has none of the properties the code reads from a field declaration.
  The member names are those of ECMAScript 2023 with Annex B, as in Node.js 20.
\<close>

datatype lookup = Value jv | Builtin | Absent

fun truthy_lookup :: "lookup \<Rightarrow> bool" where
  "truthy_lookup (Value v) = truthy v"
| "truthy_lookup Builtin = True"
| "truthy_lookup Absent = False"

definition object_prototype_names :: "string list" where
  "object_prototype_names =
     [''constructor'', ''__defineGetter__'', ''__defineSetter__'', ''hasOwnProperty'',
      ''__lookupGetter__'', ''__lookupSetter__'', ''isPrototypeOf'',
      ''propertyIsEnumerable'', ''toString'', ''valueOf'', ''__proto__'',
      ''toLocaleString'']"

definition array_prototype_names :: "string list" where
  "array_prototype_names =
     [''at'', ''concat'', ''copyWithin'', ''entries'', ''every'', ''fill'', ''filter'',
      ''find'', ''findIndex'', ''findLast'', ''findLastIndex'', ''flat'', ''flatMap'',
      ''forEach'', ''includes'', ''indexOf'', ''join'', ''keys'', ''lastIndexOf'', ''map'',
      ''pop'', ''push'', ''reduce'', ''reduceRight'', ''reverse'', ''shift'', ''slice'',
      ''some'', ''sort'', ''splice'', ''toReversed'', ''toSorted'', ''toSpliced'',
      ''unshift'', ''values'', ''with'']"

definition string_prototype_names :: "string list" where
  "string_prototype_names =
     [''anchor'', ''at'', ''big'', ''blink'', ''bold'', ''charAt'', ''charCodeAt'',
      ''codePointAt'', ''concat'', ''endsWith'', ''fixed'', ''fontcolor'', ''fontsize'',
      ''includes'', ''indexOf'', ''isWellFormed'', ''italics'', ''lastIndexOf'', ''link'',
      ''localeCompare'', ''match'', ''matchAll'', ''normalize'', ''padEnd'', ''padStart'',
      ''repeat'', ''replace'', ''replaceAll'', ''search'', ''slice'', ''small'', ''split'',
      ''startsWith'', ''strike'', ''sub'', ''substr'', ''substring'', ''sup'',
      ''toLocaleLowerCase'', ''toLocaleUpperCase'', ''toLowerCase'', ''toUpperCase'',
      ''toWellFormed'', ''trim'', ''trimEnd'', ''trimLeft'', ''trimRight'', ''trimStart'']"

definition number_prototype_names :: "string list" where
  "number_prototype_names = [''toExponential'', ''toFixed'', ''toPrecision'']"

fun inherited_names :: "jv \<Rightarrow> string list" where
  "inherited_names (JObj kvs) = object_prototype_names"
| "inherited_names (JArr xs) = array_prototype_names @ object_prototype_names"
| "inherited_names (JStr s) = string_prototype_names @ object_prototype_names"
| "inherited_names (JNum n) = number_prototype_names @ object_prototype_names"
| "inherited_names (JBool b) = object_prototype_names"
| "inherited_names v = []"

definition get_member :: "jv \<Rightarrow> string \<Rightarrow> lookup" where
  "get_member v k =
     (case own_member v k of
        Some x \<Rightarrow> Value x
      | None \<Rightarrow> (if k \<in> set (inherited_names v) then Builtin else Absent))"

subsection \<open>Objects the code builds\<close>

text \<open>
  An object the code builds and writes under keys taken from the configuration: its
  own properties in insertion order, and its prototype, which a write under the key
  \<^verbatim>\<open>__proto__\<close> can replace.
\<close>

datatype proto_state = ObjectPrototype | Replaced jv | NullPrototype

record js_object =
  obj_props :: "(string \<times> jv) list"
  obj_proto :: proto_state

definition new_object :: "(string \<times> jv) list \<Rightarrow> js_object" where
  "new_object kvs = \<lparr>obj_props = kvs, obj_proto = ObjectPrototype\<rparr>"

text \<open>
  A write under \<^verbatim>\<open>__proto__\<close> that finds no own property of that name walks the
  prototype chain. It reaches the accessor of \<^verbatim>\<open>Object.prototype\<close> unless the
  chain ends before (prototype \<^verbatim>\<open>null\<close>) or an object on it has an own data
  property \<^verbatim>\<open>__proto__\<close>, which a parsed mapping can have.
\<close>

fun reaches_setter :: "proto_state \<Rightarrow> bool" where
  "reaches_setter ObjectPrototype = True"
| "reaches_setter NullPrototype = False"
| "reaches_setter (Replaced w) = (''__proto__'' \<notin> fst ` set (own_props w))"

text \<open>
  The accessor sets the prototype to an object or to \<^verbatim>\<open>null\<close> and ignores every
  other value.
\<close>

fun set_prototype :: "jv \<Rightarrow> proto_state \<Rightarrow> proto_state" where
  "set_prototype (JObj kvs) p = Replaced (JObj kvs)"
| "set_prototype (JArr xs) p = Replaced (JArr xs)"
| "set_prototype JNull p = NullPrototype"
| "set_prototype v p = p"

text \<open>
  \<^verbatim>\<open>ob[k] = v\<close>: an own property is replaced in place, a new one is appended;
  under \<^verbatim>\<open>__proto__\<close> the accessor, when reached, changes the prototype instead
  and adds no property.
\<close>

definition set_prop :: "string \<Rightarrow> jv \<Rightarrow> js_object \<Rightarrow> js_object" where
  "set_prop k v ob =
     (if k = ''__proto__'' \<and> k \<notin> fst ` set (obj_props ob) \<and> reaches_setter (obj_proto ob)
      then ob\<lparr>obj_proto := set_prototype v (obj_proto ob)\<rparr>
      else ob\<lparr>obj_props := AList.update k v (obj_props ob)\<rparr>)"

text \<open>
  \<^verbatim>\<open>ob[k]\<close>: the own property, else what the prototype chain gives. On the chain
  the accessor \<^verbatim>\<open>__proto__\<close> returns the prototype of \<open>ob\<close> itself.
\<close>

definition get_dyn :: "js_object \<Rightarrow> string \<Rightarrow> lookup" where
  "get_dyn ob k =
     (case map_of (obj_props ob) k of
        Some x \<Rightarrow> Value x
      | None \<Rightarrow>
         (case obj_proto ob of
            NullPrototype \<Rightarrow> Absent
          | ObjectPrototype \<Rightarrow> (if k \<in> set object_prototype_names then Builtin else Absent)
          | Replaced w \<Rightarrow>
             (case own_member w k of
                Some x \<Rightarrow> Value x
              | None \<Rightarrow>
                 (if k = ''__proto__'' then Value w
                  else if k \<in> set (inherited_names w) then Builtin
                  else Absent))))"

text \<open>
  The same write on an object that starts empty and only ever receives objects the
  code has just built (none of which has an own \<^verbatim>\<open>__proto__\<close>): the accessor is
  always reached, so the key \<^verbatim>\<open>__proto__\<close> never becomes a property.
\<close>

definition put :: "string \<Rightarrow> jv \<Rightarrow> (string \<times> jv) list \<Rightarrow> (string \<times> jv) list" where
  "put k v kvs = (if k = ''__proto__'' then kvs else AList.update k v kvs)"

section \<open>Field normalizer\<close>

subsection \<open>toTitleCase\<close>

definition lower_letters :: string where
  "lower_letters = ''abcdefghijklmnopqrstuvwxyz''"

definition upper_letters :: string where
  "upper_letters = ''ABCDEFGHIJKLMNOPQRSTUVWXYZ''"

definition to_upper :: "char \<Rightarrow> char" where
  "to_upper c = (case map_of (zip lower_letters upper_letters) c of Some u \<Rightarrow> u | None \<Rightarrow> c)"

definition to_lower :: "char \<Rightarrow> char" where
  "to_lower c = (case map_of (zip upper_letters lower_letters) c of Some l \<Rightarrow> l | None \<Rightarrow> c)"

text \<open>\<^verbatim>\<open>str.split(sep)\<close> for a one-character separator: never empty.\<close>

fun split :: "char \<Rightarrow> string \<Rightarrow> string list" where
  "split sep [] = [ [] ]"
| "split sep (c # cs) =
     (if c = sep then [] # split sep cs
      else (case split sep cs of
              w # ws \<Rightarrow> (c # w) # ws
            | [] \<Rightarrow> [ [c] ]))"

text \<open>\<^verbatim>\<open>word.charAt(0).toUpperCase() + word.slice(1).toLowerCase()\<close>\<close>

fun capitalize :: "string \<Rightarrow> string" where
  "capitalize [] = []"
| "capitalize (c # cs) = to_upper c # map to_lower cs"

definition toTitleCase :: "string \<Rightarrow> string" where
  "toTitleCase str = join '' '' (map capitalize (split CHR ''_'' str))"

text \<open>
  \<^verbatim>\<open>toTitleCase(v)\<close> on an arbitrary value: only a string has a \<^verbatim>\<open>split\<close>
  method, calling it on anything else raises a TypeError.
\<close>

fun toTitleCase_jv :: "jv \<Rightarrow> error + jv" where
  "toTitleCase_jv (JStr s) = Inr (JStr (toTitleCase s))"
| "toTitleCase_jv v = Inl TypeError"

subsection \<open>inferFormat, inferType, inferEditor\<close>

definition endsWith :: "string \<Rightarrow> string \<Rightarrow> bool" where
  "endsWith s suffix = (length suffix \<le> length s \<and> drop (length s - length suffix) s = suffix)"

fun fieldName_format :: "jv \<Rightarrow> error + jv" where
  "fieldName_format (JStr s) =
     Inr (if endsWith s ''_url'' \<or> s = ''website'' then JStr ''link''
          else if endsWith s ''_links'' then JStr ''array''
          else JStr ''text'')"
| "fieldName_format v = Inl TypeError"

definition inferFormat :: "jv \<Rightarrow> jv \<Rightarrow> error + jv" where
  "inferFormat fieldName fieldConfig =
     (if nullish fieldConfig then Inl TypeError
      else if truthy (get_prop fieldConfig ''format'') then Inr (get_prop fieldConfig ''format'')
      else if truthy (get_prop fieldConfig ''array'') then Inr (JStr ''array'')
      else fieldName_format fieldName)"

definition inferType :: "jv \<Rightarrow> error + jv" where
  "inferType fieldConfig =
     (if nullish fieldConfig then Inl TypeError
      else if truthy (get_prop fieldConfig ''type'') then Inr (get_prop fieldConfig ''type'')
      else if truthy (get_prop fieldConfig ''array'') then Inr (JStr ''array'')
      else Inr (JStr ''string''))"

text \<open>The \<^verbatim>\<open>switch (type)\<close> of inferEditor; \<^verbatim>\<open>case\<close> compares with \<^verbatim>\<open>===\<close>.\<close>

definition editor_of_type :: "jv \<Rightarrow> jv" where
  "editor_of_type t =
     (if t = JStr ''integer'' \<or> t = JStr ''number'' then JStr ''number''
      else if t = JStr ''boolean'' then JStr ''checkbox''
      else if t = JStr ''array'' then JStr ''stringList''
      else JStr ''textfield'')"

definition inferEditor :: "jv \<Rightarrow> error + jv" where
  "inferEditor fieldConfig =
     (if nullish fieldConfig then Inl TypeError
      else if truthy (get_prop fieldConfig ''editor'') then Inr (get_prop fieldConfig ''editor'')
      else Inr (editor_of_type (or_else (get_prop fieldConfig ''type'') (JStr ''string''))))"

section \<open>Field aggregator\<close>

text \<open>\<^verbatim>\<open>{ ...fieldConfig, _fromGroup: groupName }\<close>\<close>

definition with_fromGroup :: "jv \<Rightarrow> string \<Rightarrow> jv" where
  "with_fromGroup fieldConfig groupName =
     JObj (AList.update ''_fromGroup'' (JStr groupName) (own_entries fieldConfig))"

text \<open>
  The inner loop of getAllDatasetFields, over the entries of one group, with the
  write \<^verbatim>\<open>fields[fieldName] = ...\<close>.
\<close>

fun merge_group :: "string \<Rightarrow> (string \<times> jv) list \<Rightarrow> js_object \<Rightarrow> js_object" where
  "merge_group groupName [] fieldsObj = fieldsObj"
| "merge_group groupName ((fieldName, fieldConfig) # rest) fieldsObj =
     merge_group groupName rest
       (set_prop fieldName (with_fromGroup fieldConfig groupName) fieldsObj)"

text \<open>
  The outer loop, over \<^verbatim>\<open>Object.keys(fieldGroups)\<close>. \<^verbatim>\<open>Object.entries\<close> of a
  group that is \<^verbatim>\<open>null\<close> raises a TypeError.
\<close>

fun merge_groups :: "jv \<Rightarrow> string list \<Rightarrow> js_object \<Rightarrow> error + js_object" where
  "merge_groups fieldGroups [] fieldsObj = Inr fieldsObj"
| "merge_groups fieldGroups (groupName # rest) fieldsObj =
     (let groupFields = get_prop fieldGroups groupName in
      if nullish groupFields then Inl TypeError
      else merge_groups fieldGroups rest
             (merge_group groupName (own_entries groupFields) fieldsObj))"

definition getAllDatasetFields :: "jv \<Rightarrow> error + js_object" where
  "getAllDatasetFields config =
     (if nullish config then Inl TypeError
      else
        let dataset = or_else (get_prop config ''dataset'') (JObj []);
            fieldsObj = new_object (own_entries (or_else (get_prop dataset ''fields'') (JObj [])));
            fieldGroups = or_else (get_prop dataset ''field_groups'') (JObj [])
        in merge_groups fieldGroups (map fst (own_entries fieldGroups)) fieldsObj)"

section \<open>Cross-reference validator\<close>

record validation =
  valid :: bool
  errors :: "string list"

definition quoted :: "string \<Rightarrow> string" where
  "quoted s = [CHR 0x27] @ s @ [CHR 0x27]"

text \<open>The two messages, on the names as the template literals print them.\<close>

definition unknown_field_error :: "string \<Rightarrow> string \<Rightarrow> string" where
  "unknown_field_error viewName fieldName =
     ''View '' @ quoted viewName @ '' references unknown field '' @ quoted fieldName"

definition unknown_group_error :: "string \<Rightarrow> string \<Rightarrow> string" where
  "unknown_group_error fieldName groupRef =
     ''Input field '' @ quoted fieldName @ '' references unknown field_group '' @ quoted groupRef"

text \<open>
  \<^verbatim>\<open>for (const x of v)\<close>: an array gives its elements, a string its characters;
  any other value here is not iterable and raises a TypeError.
\<close>

fun iter_values :: "jv \<Rightarrow> error + jv list" where
  "iter_values (JArr xs) = Inr xs"
| "iter_values (JStr s) = Inr (map (\<lambda>c. JStr [c]) s)"
| "iter_values v = Inl TypeError"

text \<open>
  The loop over one view's field names: \<^verbatim>\<open>!allFields[fieldName]\<close> converts the
  name to a property key, which can raise.
\<close>

fun check_view_fields :: "js_object \<Rightarrow> string \<Rightarrow> jv list \<Rightarrow> string list \<Rightarrow> error + string list" where
  "check_view_fields allFields viewName [] errs = Inr errs"
| "check_view_fields allFields viewName (fieldName # rest) errs =
     (case to_string fieldName of
        Inl e \<Rightarrow> Inl e
      | Inr key \<Rightarrow>
          check_view_fields allFields viewName rest
            (if \<not> truthy_lookup (get_dyn allFields key)
             then errs @ [unknown_field_error viewName key]
             else errs))"

fun check_views :: "js_object \<Rightarrow> (string \<times> jv) list \<Rightarrow> string list \<Rightarrow> error + string list" where
  "check_views allFields [] errs = Inr errs"
| "check_views allFields ((viewName, viewConfig) # rest) errs =
     (if nullish viewConfig then Inl TypeError
      else (case iter_values (or_else (get_prop viewConfig ''fields'') (JArr [])) of
              Inl e \<Rightarrow> Inl e
            | Inr names \<Rightarrow>
               (case check_view_fields allFields viewName names errs of
                  Inl e \<Rightarrow> Inl e
                | Inr errs' \<Rightarrow> check_views allFields rest errs')))"

text \<open>
  \<^verbatim>\<open>fieldConfig.group && !fieldGroups[fieldConfig.group]\<close>: the key is converted
  only when the group is truthy.
\<close>

definition check_group :: "jv \<Rightarrow> string \<Rightarrow> jv \<Rightarrow> string list \<Rightarrow> error + string list" where
  "check_group fieldGroups fieldName fieldConfig errs =
     (if nullish fieldConfig then Inl TypeError
      else if \<not> truthy (get_prop fieldConfig ''group'') then Inr errs
      else (case to_string (get_prop fieldConfig ''group'') of
              Inl e \<Rightarrow> Inl e
            | Inr key \<Rightarrow>
                Inr (if \<not> truthy_lookup (get_member fieldGroups key)
                     then errs @ [unknown_group_error fieldName key]
                     else errs)))"

fun check_groups :: "jv \<Rightarrow> (string \<times> jv) list \<Rightarrow> string list \<Rightarrow> error + string list" where
  "check_groups fieldGroups [] errs = Inr errs"
| "check_groups fieldGroups ((fieldName, fieldConfig) # rest) errs =
     (case check_group fieldGroups fieldName fieldConfig errs of
        Inl e \<Rightarrow> Inl e
      | Inr errs' \<Rightarrow> check_groups fieldGroups rest errs')"

definition validate :: "jv \<Rightarrow> error + validation" where
  "validate config =
     (if \<not> truthy config
      then Inr \<lparr>valid = False, errors = [''Config is empty or undefined'']\<rparr>
      else
        let errs1 = (if \<not> truthy (opt_prop (get_prop config ''actor'') ''name'')
                     then [''Missing required field: schemas.actor.name''] else [])
        in (case getAllDatasetFields config of
              Inl e \<Rightarrow> Inl e
            | Inr allFields \<Rightarrow>
               (let views = or_else (opt_prop (get_prop config ''dataset'') ''views'') (JObj [])
                in (case check_views allFields (own_entries views) errs1 of
                      Inl e \<Rightarrow> Inl e
                    | Inr errs2 \<Rightarrow>
                       (let fieldGroups =
                              or_else (opt_prop (get_prop config ''dataset'') ''field_groups'') (JObj []);
                            inputFields =
                              or_else (opt_prop (get_prop config ''input'') ''fields'') (JObj [])
                        in (case check_groups fieldGroups (own_entries inputFields) errs2 of
                              Inl e \<Rightarrow> Inl e
                            | Inr errs3 \<Rightarrow>
                                Inr \<lparr>valid = (length errs3 = 0), errors = errs3\<rparr>))))))"

section \<open>Document generators\<close>

subsection \<open>generateInputSchema\<close>

text \<open>\<^verbatim>\<open>if (fieldConfig.k !== undefined) field.k = fieldConfig.k\<close>, on a fresh key.\<close>

definition carry :: "jv \<Rightarrow> string \<Rightarrow> (string \<times> jv) list" where
  "carry fieldConfig k =
     (if get_prop fieldConfig k \<noteq> JUndefined then [(k, get_prop fieldConfig k)] else [])"

definition input_property :: "string \<Rightarrow> jv \<Rightarrow> error + jv" where
  "input_property fieldName fieldConfig =
     (if nullish fieldConfig then Inl TypeError
      else (case inferEditor fieldConfig of
              Inl e \<Rightarrow> Inl e
            | Inr editor \<Rightarrow>
                Inr (JObj ([(''title'',
                              or_else (get_prop fieldConfig ''title'') (JStr (toTitleCase fieldName))),
                            (''type'', or_else (get_prop fieldConfig ''type'') (JStr ''string'')),
                            (''description'',
                              or_else (or_else (get_prop fieldConfig ''description'')
                                               (get_prop fieldConfig ''desc''))
                                      (JStr [])),
                            (''editor'', editor)]
                           @ carry fieldConfig ''sectionCaption''
                           @ carry fieldConfig ''prefill''
                           @ carry fieldConfig ''default''
                           @ carry fieldConfig ''minLength''
                           @ carry fieldConfig ''maxLength''
                           @ carry fieldConfig ''minimum''
                           @ carry fieldConfig ''maximum''
                           @ carry fieldConfig ''enum''))))"

fun input_properties :: "(string \<times> jv) list \<Rightarrow> (string \<times> jv) list \<Rightarrow> error + (string \<times> jv) list" where
  "input_properties [] properties = Inr properties"
| "input_properties ((fieldName, fieldConfig) # rest) properties =
     (case input_property fieldName fieldConfig of
        Inl e \<Rightarrow> Inl e
      | Inr field \<Rightarrow> input_properties rest (put fieldName field properties))"

text \<open>
  \<^verbatim>\<open>actorConfig.title || ActorSchemaManager.toTitleCase(actorConfig.name || 'Actor Input')\<close>:
  the right operand is evaluated only when the title is not truthy.
\<close>

definition input_schema_title :: "jv \<Rightarrow> error + jv" where
  "input_schema_title actorConfig =
     (if truthy (get_prop actorConfig ''title'') then Inr (get_prop actorConfig ''title'')
      else toTitleCase_jv (or_else (get_prop actorConfig ''name'') (JStr ''Actor Input'')))"

definition generateInputSchema :: "jv \<Rightarrow> error + jv" where
  "generateInputSchema config =
     (if nullish config then Inl TypeError
      else
        let inputConfig = or_else (get_prop config ''input'') (JObj []);
            actorConfig = or_else (get_prop config ''actor'') (JObj []);
            customFields = or_else (get_prop inputConfig ''fields'') (JObj [])
        in (case input_properties (own_entries customFields) [] of
              Inl e \<Rightarrow> Inl e
            | Inr properties \<Rightarrow>
               (case input_schema_title actorConfig of
                  Inl e \<Rightarrow> Inl e
                | Inr t \<Rightarrow>
                    Inr (JObj [(''title'', t),
                               (''type'', JStr ''object''),
                               (''schemaVersion'', JNum 1),
                               (''properties'', JObj properties),
                               (''required'',
                                  or_else (get_prop inputConfig ''required'') (JArr []))]))))"

subsection \<open>generateDatasetSchema\<close>

definition dataset_field :: "string \<Rightarrow> jv \<Rightarrow> error + jv" where
  "dataset_field fieldName fieldConfig =
     (case inferType fieldConfig of
        Inl e \<Rightarrow> Inl e
      | Inr fieldType \<Rightarrow>
          Inr (JObj ([(''type'',
                        if get_prop fieldConfig ''nullable'' = JBool False then fieldType
                        else JArr [fieldType, JStr ''null'']),
                      (''title'',
                        or_else (get_prop fieldConfig ''title'') (JStr (toTitleCase fieldName))),
                      (''description'',
                        or_else (or_else (get_prop fieldConfig ''description'')
                                         (get_prop fieldConfig ''desc''))
                                (JStr []))]
                     @ (if fieldType = JStr ''array''
                        then [(''items'',
                                JObj [(''type'',
                                  or_else (get_prop fieldConfig ''itemType'') (JStr ''string''))])]
                        else []))))"

fun fields_properties :: "(string \<times> jv) list \<Rightarrow> (string \<times> jv) list \<Rightarrow> error + (string \<times> jv) list" where
  "fields_properties [] fieldsProperties = Inr fieldsProperties"
| "fields_properties ((fieldName, fieldConfig) # rest) fieldsProperties =
     (case dataset_field fieldName fieldConfig of
        Inl e \<Rightarrow> Inl e
      | Inr field \<Rightarrow> fields_properties rest (put fieldName field fieldsProperties))"

text \<open>
  \<^verbatim>\<open>fieldConfig.label || fieldConfig.title || ActorSchemaManager.toTitleCase(fieldName)\<close>
  for a view entry \<open>fieldName\<close>, which need not be a string.
\<close>

definition display_label :: "jv \<Rightarrow> jv \<Rightarrow> error + jv" where
  "display_label fieldName fieldConfig =
     (if truthy (or_else (get_prop fieldConfig ''label'') (get_prop fieldConfig ''title''))
      then Inr (or_else (get_prop fieldConfig ''label'') (get_prop fieldConfig ''title''))
      else toTitleCase_jv fieldName)"

text \<open>
  \<^verbatim>\<open>const fieldConfig = allFields[fieldName]; if (!fieldConfig) continue;\<close>
  A built-in member stands in as a declaration with no attribute: the code reads
  \<^verbatim>\<open>label\<close>, \<^verbatim>\<open>title\<close>, \<^verbatim>\<open>format\<close> and \<^verbatim>\<open>array\<close> from it, and a built-in
  has none of them.
\<close>

fun resolved_config :: "lookup \<Rightarrow> jv option" where
  "resolved_config (Value v) = (if truthy v then Some v else None)"
| "resolved_config Builtin = Some (JObj [])"
| "resolved_config Absent = None"

text \<open>
  The loop over one view's field names. An entry that does not resolve is skipped
  (the warning of verbose mode is console output only).
\<close>

fun display_properties :: "js_object \<Rightarrow> jv list \<Rightarrow> (string \<times> jv) list \<Rightarrow> error + (string \<times> jv) list" where
  "display_properties allFields [] displayProperties = Inr displayProperties"
| "display_properties allFields (fieldName # rest) displayProperties =
     (case to_string fieldName of
        Inl e \<Rightarrow> Inl e
      | Inr key \<Rightarrow>
         (case resolved_config (get_dyn allFields key) of
            None \<Rightarrow> display_properties allFields rest displayProperties
          | Some fieldConfig \<Rightarrow>
             (case display_label fieldName fieldConfig of
                Inl e \<Rightarrow> Inl e
              | Inr label \<Rightarrow>
                 (case inferFormat fieldName fieldConfig of
                    Inl e \<Rightarrow> Inl e
                  | Inr format \<Rightarrow>
                      display_properties allFields rest
                        (put key (JObj [(''label'', label), (''format'', format)])
                           displayProperties)))))"

definition view_output :: "js_object \<Rightarrow> string \<Rightarrow> jv \<Rightarrow> error + jv" where
  "view_output allFields viewName viewConfig =
     (if nullish viewConfig then Inl TypeError
      else
        let viewFields = or_else (get_prop viewConfig ''fields'') (JArr []) in
        (case iter_values viewFields of
           Inl e \<Rightarrow> Inl e
         | Inr names \<Rightarrow>
            (case display_properties allFields names [] of
               Inl e \<Rightarrow> Inl e
             | Inr displayProperties \<Rightarrow>
                 Inr (JObj [(''title'',
                               or_else (get_prop viewConfig ''title'') (JStr (toTitleCase viewName))),
                            (''transformation'', JObj [(''fields'', viewFields)]),
                            (''display'',
                               JObj [(''component'',
                                        or_else (get_prop viewConfig ''component'') (JStr ''table'')),
                                     (''properties'', JObj displayProperties)])]))))"

fun views_output :: "js_object \<Rightarrow> (string \<times> jv) list \<Rightarrow> (string \<times> jv) list \<Rightarrow> error + (string \<times> jv) list" where
  "views_output allFields [] viewsOutput = Inr viewsOutput"
| "views_output allFields ((viewName, viewConfig) # rest) viewsOutput =
     (case view_output allFields viewName viewConfig of
        Inl e \<Rightarrow> Inl e
      | Inr v \<Rightarrow> views_output allFields rest (put viewName v viewsOutput))"

definition generateDatasetSchema :: "jv \<Rightarrow> error + jv" where
  "generateDatasetSchema config =
     (case getAllDatasetFields config of
        Inl e \<Rightarrow> Inl e
      | Inr allFields \<Rightarrow>
         (let dataset = or_else (get_prop config ''dataset'') (JObj []);
              views = or_else (get_prop dataset ''views'') (JObj [])
          in (case fields_properties (key_order (obj_props allFields)) [] of
                Inl e \<Rightarrow> Inl e
              | Inr fieldsProperties \<Rightarrow>
                 (case views_output allFields (own_entries views) [] of
                    Inl e \<Rightarrow> Inl e
                  | Inr viewsOutput \<Rightarrow>
                      Inr (JObj [(''actorSpecification'', JNum 1),
                                 (''fields'',
                                    JObj [(''$schema'', JStr ''http://json-schema.org/draft-07/schema#''),
                                          (''type'', JStr ''object''),
                                          (''properties'', JObj fieldsProperties)]),
                                 (''views'', JObj viewsOutput)])))))"

section \<open>Default-value deriver\<close>

text \<open>One iteration of the loop of generateDefaultInput.\<close>

definition derive_default :: "string \<Rightarrow> jv \<Rightarrow> js_object \<Rightarrow> error + js_object" where
  "derive_default fieldName fieldConfig defaults =
     (if nullish fieldConfig then Inl TypeError
      else Inr
        (if get_prop fieldConfig ''default'' \<noteq> JUndefined
         then set_prop fieldName (get_prop fieldConfig ''default'') defaults
         else if get_prop fieldConfig ''prefill'' \<noteq> JUndefined
         then set_prop fieldName (get_prop fieldConfig ''prefill'') defaults
         else if get_prop fieldConfig ''type'' = JStr ''boolean''
         then set_prop fieldName (JBool False) defaults
         else if get_prop fieldConfig ''type'' = JStr ''integer''
                 \<or> get_prop fieldConfig ''type'' = JStr ''number''
         then set_prop fieldName (JNum 0) defaults
         else if get_prop fieldConfig ''type'' = JStr ''array''
         then set_prop fieldName (JArr []) defaults
         else defaults))"

fun derive_defaults :: "(string \<times> jv) list \<Rightarrow> js_object \<Rightarrow> error + js_object" where
  "derive_defaults [] defaults = Inr defaults"
| "derive_defaults ((fieldName, fieldConfig) # rest) defaults =
     (case derive_default fieldName fieldConfig defaults of
        Inl e \<Rightarrow> Inl e
      | Inr defaults' \<Rightarrow> derive_defaults rest defaults')"

text \<open>
  \<^verbatim>\<open>Object.assign(target, source)\<close>: one write \<^verbatim>\<open>target[k] = v\<close> for each own
  property of the source.
\<close>

fun assign :: "js_object \<Rightarrow> (string \<times> jv) list \<Rightarrow> js_object" where
  "assign target [] = target"
| "assign target ((k, v) # rest) = assign (set_prop k v target) rest"

text \<open>The result is the mapping of the own properties, as it is serialised.\<close>

definition generateDefaultInput :: "jv \<Rightarrow> error + jv" where
  "generateDefaultInput config =
     (if nullish config then Inl TypeError
      else
        let inputConfig = or_else (get_prop config ''input'') (JObj []);
            customFields = or_else (get_prop inputConfig ''fields'') (JObj [])
        in (case derive_defaults (own_entries customFields) (new_object []) of
              Inl e \<Rightarrow> Inl e
            | Inr defaults \<Rightarrow>
                Inr (JObj (obj_props
                      (if truthy (get_prop inputConfig ''defaults'')
                       then assign defaults (own_entries (get_prop inputConfig ''defaults''))
                       else defaults)))))"

section \<open>Vocabulary of the claims\<close>

text \<open>
  The sections of a config, read the way the generators read them: a missing or
  falsy section counts as the empty mapping. The entries of a section are taken in
  the order \<^verbatim>\<open>Object.entries\<close> visits them.
\<close>

definition dataset_of :: "jv \<Rightarrow> jv" where
  "dataset_of cfg = or_else (get_prop cfg ''dataset'') (JObj [])"

definition base_fields :: "jv \<Rightarrow> (string \<times> jv) list" where
  "base_fields cfg = own_entries (or_else (get_prop (dataset_of cfg) ''fields'') (JObj []))"

definition field_groups_of :: "jv \<Rightarrow> jv" where
  "field_groups_of cfg = or_else (get_prop (dataset_of cfg) ''field_groups'') (JObj [])"

definition group_entries :: "jv \<Rightarrow> (string \<times> jv) list" where
  "group_entries cfg = own_entries (field_groups_of cfg)"

text \<open>The field groups in the order in which the config declares them.\<close>

definition declared_groups :: "jv \<Rightarrow> (string \<times> jv) list" where
  "declared_groups cfg = own_props (field_groups_of cfg)"

definition view_entries :: "jv \<Rightarrow> (string \<times> jv) list" where
  "view_entries cfg = own_entries (or_else (get_prop (dataset_of cfg) ''views'') (JObj []))"

definition input_of :: "jv \<Rightarrow> jv" where
  "input_of cfg = or_else (get_prop cfg ''input'') (JObj [])"

definition input_fields :: "jv \<Rightarrow> (string \<times> jv) list" where
  "input_fields cfg = own_entries (or_else (get_prop (input_of cfg) ''fields'') (JObj []))"

text \<open>
  The names the field groups declare fields under, and every name the dataset
  section declares a field under, in the base fields or in a field group.
\<close>

definition group_field_names :: "jv \<Rightarrow> string list" where
  "group_field_names cfg =
     concat (map (\<lambda>(g, gf). map fst (own_entries gf)) (group_entries cfg))"

definition declared_field_names :: "jv \<Rightarrow> string list" where
  "declared_field_names cfg = map fst (base_fields cfg) @ group_field_names cfg"

text \<open>
  The merge of getAllDatasetFields on the own properties alone, as it runs when no
  field of a group is named \<^verbatim>\<open>__proto__\<close>: every write replaces or appends.
\<close>

fun merge_entries :: "string \<Rightarrow> (string \<times> jv) list \<Rightarrow> (string \<times> jv) list \<Rightarrow> (string \<times> jv) list" where
  "merge_entries g [] acc = acc"
| "merge_entries g ((n, fc) # rest) acc =
     merge_entries g rest (AList.update n (with_fromGroup fc g) acc)"

definition merged :: "(string \<times> jv) list \<Rightarrow> (string \<times> jv) list \<Rightarrow> (string \<times> jv) list" where
  "merged ges acc = foldl (\<lambda>acc (g, gf). merge_entries g (own_entries gf) acc) acc ges"

text \<open>The field list a view declares; a view that declares none has the empty list.\<close>

fun array_elements :: "jv \<Rightarrow> jv list" where
  "array_elements (JArr xs) = xs"
| "array_elements v = []"

definition declared_view_fields :: "jv \<Rightarrow> jv list" where
  "declared_view_fields viewConfig = array_elements (get_prop viewConfig ''fields'')"

text \<open>The string a name is, for a name that is a string.\<close>

fun string_of :: "jv \<Rightarrow> string" where
  "string_of (JStr s) = s"
| "string_of v = []"

definition declared_view_names :: "jv \<Rightarrow> string list" where
  "declared_view_names viewConfig = map string_of (declared_view_fields viewConfig)"

subsection \<open>Well-shaped configs\<close>

text \<open>
  The shape the data model of the spec gives a config: the config, every base
  field declaration, every input field declaration, every field group and every
  view is a mapping, the field groups section is a mapping when it is there, the
  field list of a view, when it is there, is a sequence of names, and the group of
  an input field, when it is there, is a name; the keys of the base fields, of the
  field groups and of the views are distinct, as the keys of a mapping are. On such
  a config no property read hits \<^verbatim>\<open>null\<close>, no loop runs over a value that is not
  iterable, and every name converts to a property key.
\<close>

fun is_object :: "jv \<Rightarrow> bool" where
  "is_object (JObj kvs) = True"
| "is_object v = False"

fun is_string :: "jv \<Rightarrow> bool" where
  "is_string (JStr s) = True"
| "is_string v = False"

fun is_name_list :: "jv \<Rightarrow> bool" where
  "is_name_list (JArr xs) = list_all is_string xs"
| "is_name_list v = (\<not> truthy v)"

fun is_name_or_absent :: "jv \<Rightarrow> bool" where
  "is_name_or_absent (JStr s) = True"
| "is_name_or_absent v = (\<not> truthy v)"

definition well_formed :: "jv \<Rightarrow> bool" where
  "well_formed cfg \<longleftrightarrow>
     is_object cfg
     \<and> is_object (field_groups_of cfg)
     \<and> distinct (map fst (base_fields cfg))
     \<and> distinct (map fst (group_entries cfg))
     \<and> distinct (map fst (view_entries cfg))
     \<and> list_all (\<lambda>(n, fc). is_object fc) (base_fields cfg)
     \<and> list_all (\<lambda>(g, gf). is_object gf) (group_entries cfg)
     \<and> list_all (\<lambda>(vn, vc). is_object vc \<and> is_name_list (get_prop vc ''fields'')) (view_entries cfg)
     \<and> list_all (\<lambda>(n, fc). is_object fc \<and> is_name_or_absent (get_prop fc ''group''))
          (input_fields cfg)"

subsection \<open>Dangling references\<close>





subsection \<open>Derived defaults\<close>

text \<open>The entries of input.defaults that are laid over the derived defaults.\<close>

definition default_overrides :: "jv \<Rightarrow> (string \<times> jv) list" where
  "default_overrides cfg =
     (if truthy (get_prop (input_of cfg) ''defaults'')
      then own_entries (get_prop (input_of cfg) ''defaults'') else [])"

text \<open>The value one iteration of the loop of generateDefaultInput stores, if any.\<close>

definition derived_value :: "jv \<Rightarrow> jv option" where
  "derived_value fieldConfig =
     (if get_prop fieldConfig ''default'' \<noteq> JUndefined then Some (get_prop fieldConfig ''default'')
      else if get_prop fieldConfig ''prefill'' \<noteq> JUndefined then Some (get_prop fieldConfig ''prefill'')
      else if get_prop fieldConfig ''type'' = JStr ''boolean'' then Some (JBool False)
      else if get_prop fieldConfig ''type'' = JStr ''integer''
              \<or> get_prop fieldConfig ''type'' = JStr ''number'' then Some (JNum 0)
      else if get_prop fieldConfig ''type'' = JStr ''array'' then Some (JArr [])
      else None)"

subsection \<open>Loops that fill a mapping\<close>

text \<open>
  The loops of generateDatasetSchema over the aggregated fields and over the views
  have one shape: compute a value for each entry and store it under the entry's key,
  or stop at the first TypeError.
\<close>

fun collect :: "(string \<Rightarrow> jv \<Rightarrow> error + jv) \<Rightarrow> (string \<times> jv) list \<Rightarrow> (string \<times> jv) list
    \<Rightarrow> error + (string \<times> jv) list" where
  "collect f [] acc = Inr acc"
| "collect f ((n, c) # rest) acc =
     (case f n c of Inl e \<Rightarrow> Inl e | Inr v \<Rightarrow> collect f rest (put n v acc))"

subsection \<open>Example configs\<close>



definition example_input_config :: jv where
  "example_input_config =
     JObj [(''input'',
              JObj [(''fields'',
                       JObj [(''debug'', JObj [(''type'', JStr ''boolean''),
                                               (''default'', JBool True),
                                               (''prefill'', JBool False)]),
                             (''urls'', JObj [(''type'', JStr ''array'')]),
                             (''query'', JObj [(''type'', JStr ''string'')]),
                             (''limit'', JObj [(''type'', JStr ''integer'')])]),
                    (''defaults'', JObj [(''limit'', JNum 10)])])]"

definition example_dataset_config :: jv where
  "example_dataset_config =
     JObj [(''actor'', JObj [(''name'', JStr ''demo'')]),
           (''dataset'',
              JObj [(''fields'',
                       JObj [(''price'', JObj [(''type'', JStr ''number'')]),
                             (''name'', JObj [(''type'', JStr ''string''),
                                              (''nullable'', JBool False)]),
                             (''tags'', JObj [(''array'', JBool True),
                                              (''itemType'', JStr ''integer'')])]),
                    (''field_groups'',
                       JObj [(''seo'', JObj [(''image_links'', JObj [(''type'', JStr ''array'')])])]),
                    (''views'',
                       JObj [(''overview'',
                                JObj [(''fields'',
                                         JArr [JStr ''price'', JStr ''missing'',
                                               JStr ''image_links''])])])])]"

section \<open>Lemmas about the loops\<close>

subsection \<open>Enumeration order\<close>

lemma set_key_order: "set (key_order kvs) = set kvs"
  by (auto simp: key_order_def)

lemma distinct_key_order: "distinct (key_order kvs) = distinct kvs"
proof -
  have "distinct (filter (\<lambda>(k, v). is_array_index k) kvs @ filter (\<lambda>(k, v). \<not> is_array_index k) kvs)
          = distinct kvs"
    by (induction kvs) auto
  then show ?thesis by (auto simp: key_order_def)
qed

lemma distinct_keys_key_order: "distinct (map fst (key_order kvs)) = distinct (map fst kvs)"
  by (simp add: distinct_map set_key_order distinct_key_order)


lemma set_own_entries: "set (own_entries v) = set (own_props v)"
  by (cases v) (simp_all add: set_key_order)

lemma distinct_own_entries: "distinct (map fst (own_entries v)) = distinct (map fst (own_props v))"
  by (cases v) (simp_all add: distinct_keys_key_order)


lemma get_prop_JObj:
  "get_prop (JObj kvs) k = (case map_of kvs k of Some x \<Rightarrow> x | None \<Rightarrow> JUndefined)"
  by (simp add: get_prop_def own_member_def split: option.splits)

lemma get_prop_entry:
  "distinct (map fst (own_entries v)) \<Longrightarrow> (k, x) \<in> set (own_entries v) \<Longrightarrow> get_prop v k = x"
  by (simp add: get_prop_def own_member_def set_own_entries distinct_own_entries)

subsection \<open>Writes under a key that is not \<^verbatim>\<open>__proto__\<close>\<close>

lemma set_prop_plain:
  "k \<noteq> ''__proto__'' \<Longrightarrow> set_prop k v ob = ob\<lparr>obj_props := AList.update k v (obj_props ob)\<rparr>"
  by (simp add: set_prop_def)

lemma set_prop_other:
  "k \<noteq> n \<Longrightarrow> map_of (obj_props (set_prop k v ob)) n = map_of (obj_props ob) n"
  by (simp add: set_prop_def update_conv')

lemma set_prop_same:
  "k \<noteq> ''__proto__'' \<Longrightarrow> map_of (obj_props (set_prop k v ob)) k = Some v"
  by (simp add: set_prop_def update_conv')

lemma put_plain: "k \<noteq> ''__proto__'' \<Longrightarrow> put k v kvs = AList.update k v kvs"
  by (simp add: put_def)

subsection \<open>Field aggregator\<close>



lemma merge_entries_keys:
  "fst ` set (merge_entries g es acc) = fst ` set acc \<union> fst ` set es"
proof (induction es arbitrary: acc)
  case Nil
  then show ?case by simp
next
  case (Cons e es)
  obtain k v where e: "e = (k, v)" by (cases e)
  have "fst ` set (merge_entries g (e # es) acc)
          = fst ` set (AList.update k (with_fromGroup v g) acc) \<union> fst ` set es"
    using Cons.IH e by simp
  also have "\<dots> = fst ` set acc \<union> fst ` set (e # es)"
    using e by (auto simp: dom_update)
  finally show ?case .
qed

lemma merge_entries_distinct:
  "distinct (map fst acc) \<Longrightarrow> distinct (map fst (merge_entries g es acc))"
  by (induction es arbitrary: acc) (auto simp: distinct_update)

lemma merged_keys:
  "fst ` set (merged ges acc) =
     fst ` set acc \<union> (\<Union>(g, gf) \<in> set ges. fst ` set (own_entries gf))"
proof (induction ges arbitrary: acc)
  case Nil
  then show ?case by (simp add: merged_def)
next
  case (Cons e ges)
  obtain g gf where e: "e = (g, gf)" by (cases e)
  have "merged (e # ges) acc = merged ges (merge_entries g (own_entries gf) acc)"
    by (simp add: merged_def e)
  then show ?case using Cons.IH [of "merge_entries g (own_entries gf) acc"] e
    by (auto simp: merge_entries_keys)
qed




lemma merged_distinct:
  "distinct (map fst acc) \<Longrightarrow> distinct (map fst (merged ges acc))"
proof (induction ges arbitrary: acc)
  case Nil
  then show ?case by (simp add: merged_def)
next
  case (Cons e ges)
  obtain g gf where e: "e = (g, gf)" by (cases e)
  have m: "merged (e # ges) acc = merged ges (merge_entries g (own_entries gf) acc)"
    by (simp add: merged_def e)
  show ?case using Cons.IH Cons.prems m by (simp add: merge_entries_distinct)
qed

lemma merge_group_entries:
  "''__proto__'' \<notin> fst ` set es \<Longrightarrow>
     merge_group g es ob = ob\<lparr>obj_props := merge_entries g es (obj_props ob)\<rparr>"
proof (induction es arbitrary: ob)
  case Nil
  then show ?case by simp
next
  case (Cons e es)
  obtain n fc where e: "e = (n, fc)" by (cases e)
  from Cons.prems e have n: "n \<noteq> ''__proto__''" and rest: "''__proto__'' \<notin> fst ` set es"
    by auto
  show ?case using Cons.IH [OF rest] e by (simp add: set_prop_plain [OF n])
qed

lemma merge_groups_merged:
  "\<forall>(g, gf) \<in> set ges. get_prop fg g = gf \<and> \<not> nullish gf
                        \<and> ''__proto__'' \<notin> fst ` set (own_entries gf) \<Longrightarrow>
     merge_groups fg (map fst ges) ob = Inr (ob\<lparr>obj_props := merged ges (obj_props ob)\<rparr>)"
proof (induction ges arbitrary: ob)
  case Nil
  then show ?case by (simp add: merged_def)
next
  case (Cons e ges)
  obtain g gf where e: "e = (g, gf)" by (cases e)
  from Cons.prems e have "get_prop fg g = gf" "\<not> nullish gf"
    and p: "''__proto__'' \<notin> fst ` set (own_entries gf)" by auto
  moreover from Cons.prems
  have "\<forall>(g, gf) \<in> set ges. get_prop fg g = gf \<and> \<not> nullish gf
                        \<and> ''__proto__'' \<notin> fst ` set (own_entries gf)" by auto
  ultimately show ?case using Cons.IH e
    by (simp add: merged_def merge_group_entries [OF p])
qed

lemma with_fromGroup_tag: "get_prop (with_fromGroup fc g) ''_fromGroup'' = JStr g"
  by (simp add: with_fromGroup_def get_prop_JObj update_conv')


lemma getAllDatasetFields_merged:
  assumes "\<not> nullish cfg"
    and "distinct (map fst (group_entries cfg))"
    and "\<forall>(g, gf) \<in> set (group_entries cfg).
           \<not> nullish gf \<and> ''__proto__'' \<notin> fst ` set (own_entries gf)"
  shows "getAllDatasetFields cfg =
     Inr \<lparr>obj_props = merged (group_entries cfg) (base_fields cfg), obj_proto = ObjectPrototype\<rparr>"
proof -
  have "\<forall>(g, gf) \<in> set (group_entries cfg).
          get_prop (field_groups_of cfg) g = gf \<and> \<not> nullish gf
          \<and> ''__proto__'' \<notin> fst ` set (own_entries gf)"
    using assms(2,3) by (auto simp: group_entries_def get_prop_entry)
  then have "merge_groups (field_groups_of cfg) (map fst (group_entries cfg))
               (new_object (base_fields cfg))
       = Inr ((new_object (base_fields cfg))
                \<lparr>obj_props := merged (group_entries cfg) (obj_props (new_object (base_fields cfg)))\<rparr>)"
    by (rule merge_groups_merged)
  then show ?thesis using assms(1)
    by (simp add: getAllDatasetFields_def Let_def group_entries_def base_fields_def
          field_groups_of_def dataset_of_def new_object_def)
qed



subsection \<open>Validator\<close>

lemma opt_prop_or_else:
  "k \<noteq> ''length'' \<Longrightarrow> opt_prop v k = get_prop (or_else v (JObj [])) k"
  by (cases v) (simp_all add: opt_prop_def or_else_def get_prop_def own_member_def)

lemma is_object_not_nullish: "is_object v \<Longrightarrow> \<not> nullish v"
  by (cases v) simp_all

lemma is_object_truthy: "is_object v \<Longrightarrow> truthy v"
  by (cases v) simp_all

lemma check_view_fields_eq:
  "list_all is_string names \<Longrightarrow>
   check_view_fields allFields vn names errs =
     Inr (errs @ map (unknown_field_error vn)
                   (filter (\<lambda>n. \<not> truthy_lookup (get_dyn allFields n)) (map string_of names)))"
proof (induction names arbitrary: errs)
  case Nil
  then show ?case by simp
next
  case (Cons fn names)
  from Cons.prems obtain s where s: "fn = JStr s" by (cases fn) simp_all
  from Cons.prems have rest: "list_all is_string names" by simp
  show ?case using Cons.IH [OF rest] s by simp
qed

lemma name_list_iter:
  assumes "is_name_list (get_prop vc ''fields'')"
  shows "iter_values (or_else (get_prop vc ''fields'') (JArr [])) = Inr (declared_view_fields vc)"
    and "list_all is_string (declared_view_fields vc)"
  using assms
  by (cases "get_prop vc ''fields''"; simp add: or_else_def declared_view_fields_def)+

lemma check_views_eq:
  "\<forall>(vn, vc) \<in> set ves. is_object vc \<and> is_name_list (get_prop vc ''fields'') \<Longrightarrow>
   check_views allFields ves errs =
     Inr (errs @ concat (map (\<lambda>(vn, vc).
            map (unknown_field_error vn)
              (filter (\<lambda>n. \<not> truthy_lookup (get_dyn allFields n)) (declared_view_names vc))) ves))"
proof (induction ves arbitrary: errs)
  case Nil
  then show ?case by simp
next
  case (Cons e ves)
  obtain vn vc where e: "e = (vn, vc)" by (cases e)
  from Cons.prems e have o: "is_object vc" and nl: "is_name_list (get_prop vc ''fields'')"
    and rest: "\<forall>(vn, vc) \<in> set ves. is_object vc \<and> is_name_list (get_prop vc ''fields'')"
    by auto
  from o have nn: "\<not> nullish vc" by (rule is_object_not_nullish)
  show ?case using Cons.IH [OF rest] nn name_list_iter [OF nl] e
    by (simp add: check_view_fields_eq declared_view_names_def)
qed

lemma check_group_eq:
  assumes "is_object fc" and "is_name_or_absent (get_prop fc ''group'')"
  shows "check_group fieldGroups fn fc errs =
     Inr (errs @ (if truthy (get_prop fc ''group'')
                     \<and> \<not> truthy_lookup (get_member fieldGroups (string_of (get_prop fc ''group'')))
                  then [unknown_group_error fn (string_of (get_prop fc ''group''))] else []))"
proof -
  from assms(1) have nn: "\<not> nullish fc" by (rule is_object_not_nullish)
  show ?thesis using assms(2) nn
    by (cases "get_prop fc ''group''") (simp_all add: check_group_def)
qed

lemma check_groups_eq:
  "\<forall>(fn, fc) \<in> set fes. is_object fc \<and> is_name_or_absent (get_prop fc ''group'') \<Longrightarrow>
   check_groups fieldGroups fes errs =
     Inr (errs @ concat (map (\<lambda>(fn, fc).
            if truthy (get_prop fc ''group'')
               \<and> \<not> truthy_lookup (get_member fieldGroups (string_of (get_prop fc ''group'')))
            then [unknown_group_error fn (string_of (get_prop fc ''group''))] else []) fes))"
proof (induction fes arbitrary: errs)
  case Nil
  then show ?case by simp
next
  case (Cons e fes)
  obtain fn fc where e: "e = (fn, fc)" by (cases e)
  from Cons.prems e have o: "is_object fc" and g: "is_name_or_absent (get_prop fc ''group'')"
    and rest: "\<forall>(fn, fc) \<in> set fes. is_object fc \<and> is_name_or_absent (get_prop fc ''group'')"
    by auto
  show ?case using Cons.IH [OF rest] e by (simp add: check_group_eq [OF o g])
qed

lemma merge_groups_returns:
  "\<forall>(g, gf) \<in> set ges. get_prop fg g = gf \<and> \<not> nullish gf \<Longrightarrow>
     \<exists>r. merge_groups fg (map fst ges) ob = Inr r"
proof (induction ges arbitrary: ob)
  case Nil
  then show ?case by simp
next
  case (Cons e ges)
  obtain g gf where e: "e = (g, gf)" by (cases e)
  from Cons.prems e have "get_prop fg g = gf" "\<not> nullish gf" by auto
  moreover from Cons.prems have "\<forall>(g, gf) \<in> set ges. get_prop fg g = gf \<and> \<not> nullish gf" by auto
  ultimately show ?case using Cons.IH e by simp
qed

lemma well_formed_aggregate_returns:
  assumes "well_formed cfg"
  shows "\<exists>all. getAllDatasetFields cfg = Inr all"
proof -
  have nn: "\<not> nullish cfg" using assms by (simp add: well_formed_def is_object_not_nullish)
  have "\<forall>(g, gf) \<in> set (group_entries cfg). get_prop (field_groups_of cfg) g = gf \<and> \<not> nullish gf"
    using assms
    by (auto simp: well_formed_def list_all_iff group_entries_def get_prop_entry
          is_object_not_nullish)
  from merge_groups_returns [OF this]
  show ?thesis using nn
    by (simp add: getAllDatasetFields_def Let_def group_entries_def field_groups_of_def
          dataset_of_def)
qed

lemma validate_sections:
  "own_entries (or_else (opt_prop (get_prop cfg ''dataset'') ''views'') (JObj [])) = view_entries cfg"
  "or_else (opt_prop (get_prop cfg ''dataset'') ''field_groups'') (JObj []) = field_groups_of cfg"
  "own_entries (or_else (opt_prop (get_prop cfg ''input'') ''fields'') (JObj [])) = input_fields cfg"
  by (simp_all add: opt_prop_or_else view_entries_def dataset_of_def field_groups_of_def
        input_fields_def input_of_def)

lemma well_formed_views:
  "well_formed cfg \<Longrightarrow>
     \<forall>(vn, vc) \<in> set (view_entries cfg). is_object vc \<and> is_name_list (get_prop vc ''fields'')"
  by (auto simp: well_formed_def list_all_iff)

lemma well_formed_inputs:
  "well_formed cfg \<Longrightarrow>
     \<forall>(fn, fc) \<in> set (input_fields cfg). is_object fc \<and> is_name_or_absent (get_prop fc ''group'')"
  by (auto simp: well_formed_def list_all_iff)

lemma validate_returns:
  assumes "well_formed cfg"
  shows "\<exists>r. validate cfg = Inr r"
proof -
  have t: "truthy cfg" using assms by (simp add: well_formed_def is_object_truthy)
  from well_formed_aggregate_returns [OF assms]
  obtain all where agg: "getAllDatasetFields cfg = Inr all" ..
  show ?thesis
    unfolding validate_def Let_def
    using t agg
    by (simp add: validate_sections check_views_eq [OF well_formed_views [OF assms]]
          check_groups_eq [OF well_formed_inputs [OF assms]])
qed


lemma merge_entries_value:
  "map_of (merge_entries g es acc) n = Some x \<Longrightarrow>
     map_of acc n = Some x \<or> (\<exists>fc. x = with_fromGroup fc g)"
proof (induction es arbitrary: acc)
  case Nil
  then show ?case by simp
next
  case (Cons e es)
  obtain k v where e: "e = (k, v)" by (cases e)
  from Cons.prems e
  have "map_of (merge_entries g es (AList.update k (with_fromGroup v g) acc)) n = Some x" by simp
  from Cons.IH [OF this]
  show ?case by (auto simp: update_conv' split: if_splits)
qed

lemma merged_value:
  "map_of (merged ges acc) n = Some x \<Longrightarrow>
     map_of acc n = Some x \<or> (\<exists>fc g. x = with_fromGroup fc g)"
proof (induction ges arbitrary: acc)
  case Nil
  then show ?case by (simp add: merged_def)
next
  case (Cons e ges)
  obtain g gf where e: "e = (g, gf)" by (cases e)
  have m: "merged (e # ges) acc = merged ges (merge_entries g (own_entries gf) acc)"
    by (simp add: merged_def e)
  from Cons.prems m
  have "map_of (merged ges (merge_entries g (own_entries gf) acc)) n = Some x" by simp
  from Cons.IH [OF this] show ?case using merge_entries_value by blast
qed


lemma merged_truthy:
  assumes "well_formed cfg"
    and "map_of (merged (group_entries cfg) (base_fields cfg)) n = Some x"
  shows "truthy x \<and> \<not> nullish x"
proof -
  from merged_value [OF assms(2)]
  consider "map_of (base_fields cfg) n = Some x" | fc g where "x = with_fromGroup fc g"
    by blast
  then show ?thesis
  proof cases
    case 1
    then have "(n, x) \<in> set (base_fields cfg)" by (rule map_of_SomeD)
    with assms(1) have "is_object x" by (auto simp: well_formed_def list_all_iff)
    then show ?thesis by (simp add: is_object_truthy is_object_not_nullish)
  next
    case 2
    then show ?thesis by (simp add: with_fromGroup_def)
  qed
qed

lemma well_formed_aggregate:
  assumes "well_formed cfg" and "''__proto__'' \<notin> set (group_field_names cfg)"
  shows "getAllDatasetFields cfg =
     Inr \<lparr>obj_props = merged (group_entries cfg) (base_fields cfg), obj_proto = ObjectPrototype\<rparr>"
proof (rule getAllDatasetFields_merged)
  show "\<not> nullish cfg" using assms(1) by (simp add: well_formed_def is_object_not_nullish)
  show "distinct (map fst (group_entries cfg))" using assms(1) by (simp add: well_formed_def)
  show "\<forall>(g, gf) \<in> set (group_entries cfg).
          \<not> nullish gf \<and> ''__proto__'' \<notin> fst ` set (own_entries gf)"
    using assms
    by (auto simp: well_formed_def list_all_iff is_object_not_nullish group_field_names_def)
qed










subsection \<open>Default-value deriver\<close>

lemma derive_default_eq:
  "\<not> nullish fc \<Longrightarrow>
     derive_default n fc acc =
       Inr (case derived_value fc of Some v \<Rightarrow> set_prop n v acc | None \<Rightarrow> acc)"
  by (simp add: derive_default_def derived_value_def)

lemma derive_defaults_returns:
  "\<forall>(n, fc) \<in> set fes. \<not> nullish fc \<Longrightarrow> \<exists>r. derive_defaults fes acc = Inr r"
proof (induction fes arbitrary: acc)
  case Nil
  then show ?case by simp
next
  case (Cons e fes)
  obtain n fc where e: "e = (n, fc)" by (cases e)
  from Cons.prems e have nn: "\<not> nullish fc" and rest: "\<forall>(n, fc) \<in> set fes. \<not> nullish fc"
    by auto
  show ?case using Cons.IH [OF rest] e by (simp add: derive_default_eq [OF nn])
qed

lemma derive_default_other:
  "derive_default n fc acc = Inr acc' \<Longrightarrow> k \<noteq> n \<Longrightarrow>
     map_of (obj_props acc') k = map_of (obj_props acc) k"
  by (auto simp: derive_default_def set_prop_other split: if_splits)

lemma derive_defaults_other:
  "derive_defaults fes acc = Inr r \<Longrightarrow> k \<notin> fst ` set fes \<Longrightarrow>
     map_of (obj_props r) k = map_of (obj_props acc) k"
proof (induction fes arbitrary: acc)
  case Nil
  then show ?case by simp
next
  case (Cons e fes)
  obtain n fc where e: "e = (n, fc)" by (cases e)
  from Cons.prems e obtain acc' where s: "derive_default n fc acc = Inr acc'"
    and r: "derive_defaults fes acc' = Inr r"
    by (auto split: sum.splits)
  from Cons.prems e have "k \<noteq> n" "k \<notin> fst ` set fes" by auto
  then show ?case using Cons.IH [OF r] derive_default_other [OF s] by simp
qed

lemma derive_default_nullish: "derive_default n fc acc = Inr acc' \<Longrightarrow> \<not> nullish fc"
  by (auto simp: derive_default_def split: if_splits)

lemma derive_defaults_member:
  "derive_defaults fes acc = Inr r \<Longrightarrow> distinct (map fst fes) \<Longrightarrow> (n, fc) \<in> set fes \<Longrightarrow>
   n \<noteq> ''__proto__'' \<Longrightarrow>
     map_of (obj_props r) n =
       (case derived_value fc of Some v \<Rightarrow> Some v | None \<Rightarrow> map_of (obj_props acc) n)"
proof (induction fes arbitrary: acc)
  case Nil
  then show ?case by simp
next
  case (Cons e fes)
  obtain k c where e: "e = (k, c)" by (cases e)
  from Cons.prems e obtain acc' where s: "derive_default k c acc = Inr acc'"
    and r: "derive_defaults fes acc' = Inr r"
    by (auto split: sum.splits)
  show ?case
  proof (cases "(n, fc) = (k, c)")
    case True
    with Cons.prems e have "n \<notin> fst ` set fes" by auto
    with r have "map_of (obj_props r) n = map_of (obj_props acc') n" by (rule derive_defaults_other)
    moreover from s have "\<not> nullish c" by (rule derive_default_nullish)
    ultimately show ?thesis using s True Cons.prems(4)
      by (auto simp: derive_default_eq set_prop_same split: option.splits)
  next
    case False
    with Cons.prems e have m: "(n, fc) \<in> set fes" and d: "distinct (map fst fes)"
      and ne: "n \<noteq> k" by (auto intro: rev_image_eqI)
    from Cons.IH [OF r d m Cons.prems(4)] derive_default_other [OF s ne] show ?thesis
      by (simp split: option.splits)
  qed
qed

lemma assign_other:
  "k \<notin> fst ` set src \<Longrightarrow>
     map_of (obj_props (assign target src)) k = map_of (obj_props target) k"
  by (induction target src rule: assign.induct) (auto simp: set_prop_other)

lemma assign_member:
  "distinct (map fst src) \<Longrightarrow> (k, v) \<in> set src \<Longrightarrow> k \<noteq> ''__proto__'' \<Longrightarrow>
     map_of (obj_props (assign target src)) k = Some v"
proof (induction target src rule: assign.induct)
  case (1 target)
  then show ?case by simp
next
  case (2 target k' v' rest)
  show ?case
  proof (cases "(k, v) = (k', v')")
    case True
    with "2.prems" have "k \<notin> fst ` set rest" by auto
    then show ?thesis using True "2.prems"(3) by (simp add: assign_other set_prop_same)
  next
    case False
    with "2.prems" have "(k, v) \<in> set rest" "distinct (map fst rest)" by auto
    then show ?thesis using "2.IH" "2.prems"(3) by simp
  qed
qed

lemma generateDefaultInput_eq:
  "\<not> nullish cfg \<Longrightarrow> derive_defaults (input_fields cfg) (new_object []) = Inr d \<Longrightarrow>
     generateDefaultInput cfg = Inr (JObj (obj_props (assign d (default_overrides cfg))))"
  by (simp add: generateDefaultInput_def Let_def input_fields_def input_of_def
        default_overrides_def)

subsection \<open>Dataset schema generator\<close>

lemma put_other: "k \<noteq> n \<Longrightarrow> map_of (put n v acc) k = map_of acc k"
  by (simp add: put_def update_conv')

lemma put_same: "n \<noteq> ''__proto__'' \<Longrightarrow> map_of (put n v acc) n = Some v"
  by (simp add: put_def update_conv')

lemma fields_properties_collect: "fields_properties es acc = collect dataset_field es acc"
  by (induction es acc rule: fields_properties.induct) (auto split: sum.splits)

lemma views_output_collect: "views_output allFields es acc = collect (view_output allFields) es acc"
  by (induction allFields es acc rule: views_output.induct) (auto split: sum.splits)

lemma collect_other:
  "collect f es acc = Inr r \<Longrightarrow> k \<notin> fst ` set es \<Longrightarrow> map_of r k = map_of acc k"
proof (induction f es acc rule: collect.induct)
  case (1 f acc)
  then show ?case by simp
next
  case (2 f n c rest acc)
  from "2.prems" obtain v where v: "f n c = Inr v"
    and r: "collect f rest (put n v acc) = Inr r"
    by (auto split: sum.splits)
  from "2.prems" have "k \<noteq> n" "k \<notin> fst ` set rest" by auto
  then show ?case using "2.IH" [OF v r] by (simp add: put_other)
qed

lemma collect_member:
  "collect f es acc = Inr r \<Longrightarrow> distinct (map fst es) \<Longrightarrow> (n, c) \<in> set es \<Longrightarrow>
   n \<noteq> ''__proto__'' \<Longrightarrow> \<exists>v. f n c = Inr v \<and> map_of r n = Some v"
proof (induction f es acc rule: collect.induct)
  case (1 f acc)
  then show ?case by simp
next
  case (2 f k c' rest acc)
  from "2.prems" obtain v where v: "f k c' = Inr v"
    and r: "collect f rest (put k v acc) = Inr r"
    by (auto split: sum.splits)
  show ?case
  proof (cases "(n, c) = (k, c')")
    case True
    with "2.prems" have "n \<notin> fst ` set rest" by auto
    with r have "map_of r n = map_of (put k v acc) n" by (rule collect_other)
    then show ?thesis using True v "2.prems"(4) by (simp add: put_same)
  next
    case False
    with "2.prems" have "(n, c) \<in> set rest" "distinct (map fst rest)" by auto
    then show ?thesis using "2.IH" [OF v r] "2.prems"(4) by simp
  qed
qed

lemma collect_returns:
  "\<forall>(n, c) \<in> set es. \<exists>v. f n c = Inr v \<Longrightarrow> \<exists>r. collect f es acc = Inr r"
proof (induction f es acc rule: collect.induct)
  case (1 f acc)
  then show ?case by simp
next
  case (2 f n c rest acc)
  from "2.prems" obtain v where v: "f n c = Inr v" by auto
  from "2.prems" have "\<forall>(n, c) \<in> set rest. \<exists>v. f n c = Inr v" by auto
  from "2.IH" [OF v this] show ?case using v by simp
qed

lemma dataset_field_eq:
  assumes "inferType fc = Inr t"
  shows "\<exists>field. dataset_field n fc = Inr field
     \<and> get_prop field ''type'' =
         (if get_prop fc ''nullable'' = JBool False then t else JArr [t, JStr ''null''])
     \<and> get_prop field ''items'' =
         (if t = JStr ''array''
          then JObj [(''type'', if truthy (get_prop fc ''itemType'')
                                then get_prop fc ''itemType'' else JStr ''string'')]
          else JUndefined)"
  using assms by (simp add: dataset_field_def get_prop_JObj or_else_def)

lemma inferType_returns: "\<not> nullish fc \<Longrightarrow> \<exists>t. inferType fc = Inr t"
  by (simp add: inferType_def)

lemma dataset_field_returns: "\<not> nullish fc \<Longrightarrow> \<exists>v. dataset_field n fc = Inr v"
  using inferType_returns [of fc] by (auto simp: dataset_field_def)

lemma dataset_field_inferType: "dataset_field n fc = Inr v \<Longrightarrow> \<exists>t. inferType fc = Inr t"
  by (auto simp: dataset_field_def split: sum.splits)


lemma resolved_config_truthy: "resolved_config l = Some fc \<Longrightarrow> truthy fc \<and> \<not> nullish fc"
  by (cases l) (auto split: if_splits, (case_tac fc; simp)+)


lemma display_properties_returns:
  "list_all is_string names \<Longrightarrow> \<exists>dp. display_properties allFields names acc = Inr dp"
proof (induction names arbitrary: acc)
  case Nil
  then show ?case by simp
next
  case (Cons fn names)
  from Cons.prems obtain s where s: "fn = JStr s" by (cases fn) simp_all
  from Cons.prems have rest: "list_all is_string names" by simp
  show ?case
  proof (cases "resolved_config (get_dyn allFields s)")
    case None
    then show ?thesis using Cons.IH [OF rest] s by simp
  next
    case (Some fc)
    then have nn: "\<not> nullish fc" by (simp add: resolved_config_truthy)
    have "\<exists>l. display_label fn fc = Inr l"
      using s by (simp add: display_label_def)
    then obtain l where l: "display_label fn fc = Inr l" ..
    have "\<exists>f. inferFormat fn fc = Inr f"
      using s nn by (simp add: inferFormat_def)
    then obtain f where f: "inferFormat fn fc = Inr f" ..
    show ?thesis using Some s l f Cons.IH [OF rest] by simp
  qed
qed


lemma view_output_returns:
  assumes "is_object vc" and "is_name_list (get_prop vc ''fields'')"
  shows "\<exists>v. view_output allFields vn vc = Inr v"
proof -
  from assms(1) have nn: "\<not> nullish vc" by (rule is_object_not_nullish)
  note it = name_list_iter [OF assms(2)]
  from display_properties_returns [OF it(2)]
  obtain dp where "display_properties allFields (declared_view_fields vc) [] = Inr dp" by blast
  then show ?thesis using nn it(1) by (simp add: view_output_def Let_def)
qed


lemma generateDatasetSchema_eq:
  assumes "getAllDatasetFields cfg = Inr allFields"
    and "fields_properties (key_order (obj_props allFields)) [] = Inr props"
    and "views_output allFields (view_entries cfg) [] = Inr vo"
  shows "\<exists>schema. generateDatasetSchema cfg = Inr schema
     \<and> get_prop (get_prop schema ''fields'') ''properties'' = JObj props
     \<and> get_prop schema ''views'' = JObj vo"
  using assms
  by (simp add: generateDatasetSchema_def Let_def view_entries_def dataset_of_def get_prop_JObj)

lemma well_formed_distinct:
  "well_formed cfg \<Longrightarrow> distinct (map fst (merged (group_entries cfg) (base_fields cfg)))"
  by (simp add: well_formed_def merged_distinct)

lemma merged_not_nullish:
  assumes "well_formed cfg" and "(n, fc) \<in> set (merged (group_entries cfg) (base_fields cfg))"
  shows "\<not> nullish fc"
proof -
  have "distinct (map fst (merged (group_entries cfg) (base_fields cfg)))"
    using assms(1) by (rule well_formed_distinct)
  with assms(2) have "map_of (merged (group_entries cfg) (base_fields cfg)) n = Some fc" by simp
  from merged_truthy [OF assms(1) this] show ?thesis ..
qed

lemma well_formed_schema:
  assumes "well_formed cfg" and "''__proto__'' \<notin> set (group_field_names cfg)"
  shows "\<exists>schema props vo. generateDatasetSchema cfg = Inr schema
     \<and> fields_properties (key_order (merged (group_entries cfg) (base_fields cfg))) [] = Inr props
     \<and> views_output \<lparr>obj_props = merged (group_entries cfg) (base_fields cfg),
                      obj_proto = ObjectPrototype\<rparr> (view_entries cfg) [] = Inr vo
     \<and> get_prop (get_prop schema ''fields'') ''properties'' = JObj props
     \<and> get_prop schema ''views'' = JObj vo"
proof -
  let ?m = "merged (group_entries cfg) (base_fields cfg)"
  let ?all = "\<lparr>obj_props = ?m, obj_proto = ObjectPrototype\<rparr>"
  have agg: "getAllDatasetFields cfg = Inr ?all" using assms by (rule well_formed_aggregate)
  have "\<forall>(n, fc) \<in> set (key_order ?m). \<exists>v. dataset_field n fc = Inr v"
    using merged_not_nullish [OF assms(1)] dataset_field_returns
    by (auto simp: set_key_order)
  then obtain props where p: "fields_properties (key_order ?m) [] = Inr props"
    unfolding fields_properties_collect using collect_returns by blast
  have "\<forall>(vn, vc) \<in> set (view_entries cfg). \<exists>v. view_output ?all vn vc = Inr v"
    using assms(1) view_output_returns by (auto simp: well_formed_def list_all_iff)
  then obtain vo where v: "views_output ?all (view_entries cfg) [] = Inr vo"
    unfolding views_output_collect using collect_returns by blast
  from generateDatasetSchema_eq [OF agg _ v, of props] p v
  show ?thesis by auto
qed

subsection \<open>Input schema title\<close>

text \<open>
  An explicit actor.title is used as it is, and a string actor.name is title-cased;
  with neither, the literal \<^verbatim>\<open>'Actor Input'\<close> goes through toTitleCase as well.
\<close>

lemma input_schema_title_explicit:
  "truthy (get_prop actorConfig ''title'') \<Longrightarrow>
     input_schema_title actorConfig = Inr (get_prop actorConfig ''title'')"
  by (simp add: input_schema_title_def)

lemma input_schema_title_from_name:
  "\<not> truthy (get_prop actorConfig ''title'') \<Longrightarrow> get_prop actorConfig ''name'' = JStr s \<Longrightarrow>
     s \<noteq> [] \<Longrightarrow> input_schema_title actorConfig = Inr (JStr (toTitleCase s))"
  by (simp add: input_schema_title_def or_else_def)

lemma toTitleCase_Actor_Input: "toTitleCase ''Actor Input'' = ''Actor input''"
  by (simp add: toTitleCase_def to_upper_def to_lower_def lower_letters_def upper_letters_def)

lemma input_schema_title_fallback:
  "\<not> truthy (get_prop actorConfig ''title'') \<Longrightarrow> \<not> truthy (get_prop actorConfig ''name'') \<Longrightarrow>
     input_schema_title actorConfig = Inr (JStr ''Actor input'')"
  by (simp add: input_schema_title_def or_else_def toTitleCase_Actor_Input)

subsection \<open>Names that meet the prototype chain or the index order\<close>

text \<open>
  The theorems below leave aside the names that are members of \<^verbatim>\<open>Object.prototype\<close>
  and the groups named by array indices. What the code does at such names: a reference
  to \<^verbatim>\<open>constructor\<close> or \<^verbatim>\<open>toString\<close> resolves although nothing declares it, a
  write under \<^verbatim>\<open>__proto__\<close> adds no key, and groups named by array indices are
  merged in ascending numeric order, whatever the order of the document.
\<close>

lemma validate_resolves_inherited_names:
  "validate
     (JObj [(''actor'', JObj [(''name'', JStr ''demo'')]),
            (''dataset'',
               JObj [(''fields'', JObj [(''a'', JObj [])]),
                     (''views'', JObj [(''v'', JObj [(''fields'', JArr [JStr ''constructor''])])])]),
            (''input'', JObj [(''fields'', JObj [(''f'', JObj [(''group'', JStr ''toString'')])])])])
   = Inr \<lparr>valid = True, errors = []\<rparr>"
  by (simp add: validate_def getAllDatasetFields_def get_prop_def own_member_def opt_prop_def
        or_else_def new_object_def key_order_def is_digit_def check_group_def get_dyn_def
        get_member_def object_prototype_names_def)

lemma display_properties_resolves_inherited_names:
  "display_properties (new_object [(''a'', JObj [])]) [JStr ''a'', JStr ''toString'', JStr ''z''] []
   = Inr [(''a'', JObj [(''label'', JStr ''A''), (''format'', JStr ''text'')]),
          (''toString'', JObj [(''label'', JStr ''Tostring''), (''format'', JStr ''text'')])]"
  by (simp add: new_object_def get_dyn_def object_prototype_names_def display_label_def
        inferFormat_def get_prop_def own_member_def or_else_def put_def endsWith_def
        toTitleCase_def to_upper_def to_lower_def lower_letters_def upper_letters_def)

lemma getAllDatasetFields_proto_field:
  "getAllDatasetFields
     (JObj [(''dataset'',
               JObj [(''field_groups'',
                        JObj [(''g'', JObj [(''__proto__'', JObj [(''type'', JStr ''string'')])])])])])
   = Inr \<lparr>obj_props = [],
          obj_proto = Replaced (JObj [(''type'', JStr ''string''), (''_fromGroup'', JStr ''g'')])\<rparr>"
  by (simp add: getAllDatasetFields_def get_prop_def own_member_def or_else_def new_object_def
        key_order_def is_digit_def set_prop_def with_fromGroup_def)

lemma generateDefaultInput_proto_field:
  "generateDefaultInput
     (JObj [(''input'',
               JObj [(''fields'', JObj [(''__proto__'', JObj [(''type'', JStr ''boolean'')])])])])
   = Inr (JObj [])"
  by (simp add: generateDefaultInput_def derive_default_def get_prop_def own_member_def
        or_else_def new_object_def key_order_def is_digit_def set_prop_def)

lemma getAllDatasetFields_index_named_groups:
  "getAllDatasetFields
     (JObj [(''dataset'',
               JObj [(''field_groups'',
                        JObj [(''2'', JObj [(''x'', JObj [(''type'', JStr ''number'')])]),
                              (''1'', JObj [(''x'', JObj [(''type'', JStr ''string'')])])])])])
   = Inr \<lparr>obj_props = [(''x'', JObj [(''type'', JStr ''number''), (''_fromGroup'', JStr ''2'')])],
          obj_proto = ObjectPrototype\<rparr>"
  by (simp add: getAllDatasetFields_def get_prop_def own_member_def or_else_def new_object_def
        key_order_def is_digit_def index_value_def digit_value_def set_prop_def with_fromGroup_def)

subsection \<open>Evaluating the sections of a concrete config\<close>

lemmas section_defs = field_groups_of_def dataset_of_def group_entries_def declared_groups_def
       base_fields_def view_entries_def input_fields_def input_of_def get_prop_def own_member_def
       or_else_def key_order_def is_digit_def


section \<open>Claims\<close>

text \<open>
  C1 (as stated). The claim says that inferEditor maps the type inferType resolves,
  so that \<^verbatim>\<open>{array: true}\<close> gets the editor \<^verbatim>\<open>stringList\<close>. The code reads
  \<^verbatim>\<open>fieldConfig.type || 'string'\<close> and never looks at \<^verbatim>\<open>array\<close>: at
  \<^verbatim>\<open>{array: true}\<close> inferType gives \<^verbatim>\<open>array\<close> and inferEditor gives
  \<^verbatim>\<open>textfield\<close>.
\<close>

theorem inferEditor_ignores_array_shorthand:
  "get_prop (JObj [(''array'', JBool True)]) ''editor'' = JUndefined
   \<and> get_prop (JObj [(''array'', JBool True)]) ''type'' = JUndefined
   \<and> inferType (JObj [(''array'', JBool True)]) = Inr (JStr ''array'')
   \<and> inferEditor (JObj [(''array'', JBool True)]) = Inr (JStr ''textfield'')
   \<and> inferEditor (JObj [(''array'', JBool True)]) \<noteq> Inr (JStr ''stringList'')"
  by (simp add: get_prop_def own_member_def inferType_def inferEditor_def or_else_def editor_of_type_def)

text \<open>
  C1, amended: for every field declaration without an editor, inferEditor returns the
  editor mapped from the declared \<^verbatim>\<open>type\<close> alone: integer or number gives
  \<^verbatim>\<open>number\<close>, boolean gives \<^verbatim>\<open>checkbox\<close>, array gives \<^verbatim>\<open>stringList\<close>,
  anything else gives \<^verbatim>\<open>textfield\<close>. When \<^verbatim>\<open>type\<close> is set this is the type
  inferType resolves; when it is not set the editor is \<^verbatim>\<open>textfield\<close>, whatever
  \<^verbatim>\<open>array\<close> says.
\<close>

theorem inferEditor_from_declared_type:
  assumes "\<not> nullish fc" and "\<not> truthy (get_prop fc ''editor'')"
  shows "(truthy (get_prop fc ''type'') \<longrightarrow>
            inferType fc = Inr (get_prop fc ''type'')
            \<and> inferEditor fc =
                Inr (if get_prop fc ''type'' = JStr ''integer'' \<or> get_prop fc ''type'' = JStr ''number''
                     then JStr ''number''
                     else if get_prop fc ''type'' = JStr ''boolean'' then JStr ''checkbox''
                     else if get_prop fc ''type'' = JStr ''array'' then JStr ''stringList''
                     else JStr ''textfield''))
         \<and> (\<not> truthy (get_prop fc ''type'') \<longrightarrow> inferEditor fc = Inr (JStr ''textfield''))"
  using assms
  by (simp add: inferType_def inferEditor_def or_else_def editor_of_type_def)

theorem inferEditor_from_declared_type_witness:
  "\<not> nullish (JObj [(''type'', JStr ''integer'')])
   \<and> \<not> truthy (get_prop (JObj [(''type'', JStr ''integer'')]) ''editor'')
   \<and> truthy (get_prop (JObj [(''type'', JStr ''integer'')]) ''type'')
   \<and> inferType (JObj [(''type'', JStr ''integer'')]) = Inr (JStr ''integer'')
   \<and> inferEditor (JObj [(''type'', JStr ''integer'')]) = Inr (JStr ''number'')"
proof -
  have a: "\<not> nullish (JObj [(''type'', JStr ''integer'')])" by simp
  have b: "\<not> truthy (get_prop (JObj [(''type'', JStr ''integer'')]) ''editor'')"
    by (simp add: get_prop_def own_member_def)
  have c: "get_prop (JObj [(''type'', JStr ''integer'')]) ''type'' = JStr ''integer''"
    by (simp add: get_prop_def own_member_def)
  show ?thesis
    using inferEditor_from_declared_type [OF a b] a b by (simp add: c)
qed



text \<open>
  C3. On every well-shaped config that declares no dataset field under the name
  \<^verbatim>\<open>__proto__\<close> the dataset schema is generated, and for every aggregated dataset
  field its entry under \<^verbatim>\<open>fields.properties\<close> has as type the pair of the resolved
  type (the result of inferType) and \<^verbatim>\<open>null\<close>, or the bare resolved type when the
  declaration sets \<^verbatim>\<open>nullable: false\<close>. When the resolved type is \<^verbatim>\<open>array\<close> the
  entry carries \<^verbatim>\<open>items.type\<close>, equal to the declared \<^verbatim>\<open>itemType\<close>, or to
  \<^verbatim>\<open>string\<close> when there is none (\<^verbatim>\<open>itemType || 'string'\<close>: a value that is not
  truthy counts as none). (The write \<^verbatim>\<open>fieldsProperties['__proto__'] = field\<close>
  would set the prototype of the mapping and add no entry.)
\<close>

theorem generateDatasetSchema_field_types:
  assumes "well_formed cfg"
    and "''__proto__'' \<notin> set (declared_field_names cfg)"
  shows "\<exists>schema all props. generateDatasetSchema cfg = Inr schema
     \<and> getAllDatasetFields cfg = Inr all
     \<and> get_prop (get_prop schema ''fields'') ''properties'' = JObj props
     \<and> (\<forall>(n, fc) \<in> set (obj_props all). \<exists>t field.
           inferType fc = Inr t
           \<and> map_of props n = Some field
           \<and> get_prop field ''type'' =
               (if get_prop fc ''nullable'' = JBool False then t else JArr [t, JStr ''null''])
           \<and> (t = JStr ''array'' \<longrightarrow>
                 get_prop (get_prop field ''items'') ''type'' =
                   (if truthy (get_prop fc ''itemType'') then get_prop fc ''itemType''
                    else JStr ''string'')))"
proof -
  let ?m = "merged (group_entries cfg) (base_fields cfg)"
  let ?all = "\<lparr>obj_props = ?m, obj_proto = ObjectPrototype\<rparr>"
  have np: "''__proto__'' \<notin> set (group_field_names cfg)"
    using assms(2) by (simp add: declared_field_names_def)
  from well_formed_schema [OF assms(1) np]
  obtain schema props vo where s: "generateDatasetSchema cfg = Inr schema"
    and p: "fields_properties (key_order ?m) [] = Inr props"
    and gp: "get_prop (get_prop schema ''fields'') ''properties'' = JObj props"
    by blast
  have agg: "getAllDatasetFields cfg = Inr ?all" using assms(1) np by (rule well_formed_aggregate)
  have d: "distinct (map fst (key_order ?m))"
    using well_formed_distinct [OF assms(1)] by (simp add: distinct_keys_key_order)
  have keys: "fst ` set ?m = set (declared_field_names cfg)"
    by (auto simp: merged_keys declared_field_names_def group_field_names_def)
  have each: "\<forall>(n, fc) \<in> set (obj_props ?all). \<exists>t field.
           inferType fc = Inr t
           \<and> map_of props n = Some field
           \<and> get_prop field ''type'' =
               (if get_prop fc ''nullable'' = JBool False then t else JArr [t, JStr ''null''])
           \<and> (t = JStr ''array'' \<longrightarrow>
                 get_prop (get_prop field ''items'') ''type'' =
                   (if truthy (get_prop fc ''itemType'') then get_prop fc ''itemType''
                    else JStr ''string''))"
  proof (intro ballI, clarify)
    fix n fc
    assume "(n, fc) \<in> set (obj_props ?all)"
    then have m0: "(n, fc) \<in> set ?m" by simp
    then have m: "(n, fc) \<in> set (key_order ?m)" by (simp add: set_key_order)
    from m0 have "n \<in> fst ` set ?m" by (rule rev_image_eqI) simp
    with keys assms(2) have ne: "n \<noteq> ''__proto__''" by auto
    from p have "collect dataset_field (key_order ?m) [] = Inr props"
      by (simp add: fields_properties_collect)
    from collect_member [OF this d m ne]
    obtain v where v: "dataset_field n fc = Inr v" and mv: "map_of props n = Some v" by blast
    from dataset_field_inferType [OF v] obtain t where t: "inferType fc = Inr t" by blast
    from dataset_field_eq [OF t, of n] v
    have ty: "get_prop v ''type'' =
               (if get_prop fc ''nullable'' = JBool False then t else JArr [t, JStr ''null''])"
      and it: "get_prop v ''items'' =
         (if t = JStr ''array''
          then JObj [(''type'', if truthy (get_prop fc ''itemType'')
                                then get_prop fc ''itemType'' else JStr ''string'')]
          else JUndefined)"
      by auto
    from it have "t = JStr ''array'' \<longrightarrow>
                 get_prop (get_prop v ''items'') ''type'' =
                   (if truthy (get_prop fc ''itemType'') then get_prop fc ''itemType''
                    else JStr ''string'')"
      by (simp add: get_prop_JObj)
    with t mv ty show "\<exists>t field.
           inferType fc = Inr t
           \<and> map_of props n = Some field
           \<and> get_prop field ''type'' =
               (if get_prop fc ''nullable'' = JBool False then t else JArr [t, JStr ''null''])
           \<and> (t = JStr ''array'' \<longrightarrow>
                 get_prop (get_prop field ''items'') ''type'' =
                   (if truthy (get_prop fc ''itemType'') then get_prop fc ''itemType''
                    else JStr ''string''))"
      by blast
  qed
  from s agg gp each show ?thesis by blast
qed

theorem generateDatasetSchema_field_types_witness:
  "well_formed example_dataset_config
   \<and> ''__proto__'' \<notin> set (declared_field_names example_dataset_config)
   \<and> (\<exists>schema props f1 f2. generateDatasetSchema example_dataset_config = Inr schema
          \<and> get_prop (get_prop schema ''fields'') ''properties'' = JObj props
          \<and> map_of props ''name'' = Some f1
          \<and> get_prop f1 ''type'' = JStr ''string''
          \<and> map_of props ''tags'' = Some f2
          \<and> get_prop f2 ''type'' = JArr [JStr ''array'', JStr ''null'']
          \<and> get_prop (get_prop f2 ''items'') ''type'' = JStr ''integer'')"
proof -
  have wf: "well_formed example_dataset_config"
    by (simp add: example_dataset_config_def well_formed_def section_defs)
  have np: "''__proto__'' \<notin> set (declared_field_names example_dataset_config)"
    by (simp add: example_dataset_config_def declared_field_names_def group_field_names_def
          section_defs)
  have ev: "getAllDatasetFields example_dataset_config =
      Inr \<lparr>obj_props =
             [(''price'', JObj [(''type'', JStr ''number'')]),
              (''name'', JObj [(''type'', JStr ''string''), (''nullable'', JBool False)]),
              (''tags'', JObj [(''array'', JBool True), (''itemType'', JStr ''integer'')]),
              (''image_links'', JObj [(''type'', JStr ''array''),
                                      (''_fromGroup'', JStr ''seo'')])],
            obj_proto = ObjectPrototype\<rparr>"
    by (simp add: example_dataset_config_def getAllDatasetFields_def with_fromGroup_def
          get_prop_def own_member_def or_else_def new_object_def set_prop_def key_order_def
          is_digit_def)
  from generateDatasetSchema_field_types [OF wf np]
  obtain schema all props where s: "generateDatasetSchema example_dataset_config = Inr schema"
    and agg: "getAllDatasetFields example_dataset_config = Inr all"
    and gp: "get_prop (get_prop schema ''fields'') ''properties'' = JObj props"
    and each: "\<forall>(n, fc) \<in> set (obj_props all). \<exists>t field.
           inferType fc = Inr t
           \<and> map_of props n = Some field
           \<and> get_prop field ''type'' =
               (if get_prop fc ''nullable'' = JBool False then t else JArr [t, JStr ''null''])
           \<and> (t = JStr ''array'' \<longrightarrow>
                 get_prop (get_prop field ''items'') ''type'' =
                   (if truthy (get_prop fc ''itemType'') then get_prop fc ''itemType''
                    else JStr ''string''))"
    by blast
  from agg ev have all: "obj_props all =
      [(''price'', JObj [(''type'', JStr ''number'')]),
       (''name'', JObj [(''type'', JStr ''string''), (''nullable'', JBool False)]),
       (''tags'', JObj [(''array'', JBool True), (''itemType'', JStr ''integer'')]),
       (''image_links'', JObj [(''type'', JStr ''array''), (''_fromGroup'', JStr ''seo'')])]"
    by auto
  from each obtain f1 where f1: "map_of props ''name'' = Some f1"
    and t1: "get_prop f1 ''type'' = JStr ''string''"
    by (auto simp: all inferType_def get_prop_JObj)
  from each obtain f2 where f2: "map_of props ''tags'' = Some f2"
    and t2: "get_prop f2 ''type'' = JArr [JStr ''array'', JStr ''null'']"
    and i2: "get_prop (get_prop f2 ''items'') ''type'' = JStr ''integer''"
    by (auto simp: all inferType_def get_prop_JObj)
  have "\<exists>schema props f1 f2. generateDatasetSchema example_dataset_config = Inr schema
          \<and> get_prop (get_prop schema ''fields'') ''properties'' = JObj props
          \<and> map_of props ''name'' = Some f1
          \<and> get_prop f1 ''type'' = JStr ''string''
          \<and> map_of props ''tags'' = Some f2
          \<and> get_prop f2 ''type'' = JArr [JStr ''array'', JStr ''null'']
          \<and> get_prop (get_prop f2 ''items'') ''type'' = JStr ''integer''"
    using s gp f1 t1 f2 t2 i2 by (intro exI [of _ schema] exI [of _ props] exI [of _ f1] exI [of _ f2] conjI)
  with wf np show ?thesis by (intro conjI)
qed



text \<open>
  C5. For every config whose input field declarations are not \<^verbatim>\<open>null\<close>,
  generateDefaultInput returns a mapping in which every key of input.defaults other
  than \<^verbatim>\<open>__proto__\<close> has the value given there, and every other input field not
  named \<^verbatim>\<open>__proto__\<close> has the value derived by precedence: an explicit
  \<^verbatim>\<open>default\<close>; else an explicit \<^verbatim>\<open>prefill\<close>; else false for type boolean, 0 for
  type integer or number, the empty sequence for type array; else no entry at all. No
  key that is neither an input field nor a key of input.defaults is present. (A write
  under \<^verbatim>\<open>__proto__\<close> sets the prototype of the result and need not add a key, so
  nothing is said of that name.)
\<close>

theorem generateDefaultInput_precedence:
  assumes "\<not> nullish cfg"
    and "distinct (map fst (input_fields cfg))"
    and "\<forall>(n, fc) \<in> set (input_fields cfg). \<not> nullish fc"
    and "distinct (map fst (default_overrides cfg))"
  shows "\<exists>r. generateDefaultInput cfg = Inr (JObj r)
     \<and> (\<forall>(k, v) \<in> set (default_overrides cfg). k \<noteq> ''__proto__'' \<longrightarrow> map_of r k = Some v)
     \<and> (\<forall>(n, fc) \<in> set (input_fields cfg).
           n \<noteq> ''__proto__'' \<and> n \<notin> fst ` set (default_overrides cfg) \<longrightarrow>
           map_of r n =
             (if get_prop fc ''default'' \<noteq> JUndefined then Some (get_prop fc ''default'')
              else if get_prop fc ''prefill'' \<noteq> JUndefined then Some (get_prop fc ''prefill'')
              else if get_prop fc ''type'' = JStr ''boolean'' then Some (JBool False)
              else if get_prop fc ''type'' = JStr ''integer''
                      \<or> get_prop fc ''type'' = JStr ''number'' then Some (JNum 0)
              else if get_prop fc ''type'' = JStr ''array'' then Some (JArr [])
              else None))
     \<and> (\<forall>k. k \<notin> fst ` set (input_fields cfg) \<and> k \<notin> fst ` set (default_overrides cfg)
           \<longrightarrow> map_of r k = None)"
proof -
  from derive_defaults_returns [OF assms(3)]
  obtain d where d: "derive_defaults (input_fields cfg) (new_object []) = Inr d" by blast
  let ?r = "obj_props (assign d (default_overrides cfg))"
  have r: "generateDefaultInput cfg = Inr (JObj ?r)"
    using assms(1) d by (rule generateDefaultInput_eq)
  have o: "\<forall>(k, v) \<in> set (default_overrides cfg). k \<noteq> ''__proto__'' \<longrightarrow> map_of ?r k = Some v"
    using assms(4) by (auto simp: assign_member)
  have f: "\<forall>(n, fc) \<in> set (input_fields cfg).
           n \<noteq> ''__proto__'' \<and> n \<notin> fst ` set (default_overrides cfg) \<longrightarrow>
           map_of ?r n =
             (if get_prop fc ''default'' \<noteq> JUndefined then Some (get_prop fc ''default'')
              else if get_prop fc ''prefill'' \<noteq> JUndefined then Some (get_prop fc ''prefill'')
              else if get_prop fc ''type'' = JStr ''boolean'' then Some (JBool False)
              else if get_prop fc ''type'' = JStr ''integer''
                      \<or> get_prop fc ''type'' = JStr ''number'' then Some (JNum 0)
              else if get_prop fc ''type'' = JStr ''array'' then Some (JArr [])
              else None)"
  proof (intro ballI, clarify)
    fix n fc
    assume m: "(n, fc) \<in> set (input_fields cfg)"
      and np: "n \<noteq> ''__proto__''"
      and no: "n \<notin> fst ` set (default_overrides cfg)"
    have "map_of ?r n = map_of (obj_props d) n" using no by (rule assign_other)
    also have "\<dots> = (case derived_value fc of Some v \<Rightarrow> Some v | None \<Rightarrow> map_of (obj_props (new_object [])) n)"
      using d assms(2) m np by (rule derive_defaults_member)
    also have "\<dots> = derived_value fc" by (simp add: new_object_def split: option.splits)
    finally show "map_of ?r n =
             (if get_prop fc ''default'' \<noteq> JUndefined then Some (get_prop fc ''default'')
              else if get_prop fc ''prefill'' \<noteq> JUndefined then Some (get_prop fc ''prefill'')
              else if get_prop fc ''type'' = JStr ''boolean'' then Some (JBool False)
              else if get_prop fc ''type'' = JStr ''integer''
                      \<or> get_prop fc ''type'' = JStr ''number'' then Some (JNum 0)
              else if get_prop fc ''type'' = JStr ''array'' then Some (JArr [])
              else None)"
      by (simp add: derived_value_def)
  qed
  have n: "\<forall>k. k \<notin> fst ` set (input_fields cfg) \<and> k \<notin> fst ` set (default_overrides cfg)
           \<longrightarrow> map_of ?r k = None"
  proof (intro allI impI)
    fix k
    assume h: "k \<notin> fst ` set (input_fields cfg) \<and> k \<notin> fst ` set (default_overrides cfg)"
    then have "map_of ?r k = map_of (obj_props d) k" by (simp add: assign_other)
    also have "\<dots> = map_of (obj_props (new_object [])) k"
      using d h by (intro derive_defaults_other) auto
    finally show "map_of ?r k = None" by (simp add: new_object_def)
  qed
  from r o f n show ?thesis by blast
qed

theorem generateDefaultInput_precedence_witness:
  "\<not> nullish example_input_config
   \<and> distinct (map fst (input_fields example_input_config))
   \<and> list_all (\<lambda>(n, fc). \<not> nullish fc) (input_fields example_input_config)
   \<and> distinct (map fst (default_overrides example_input_config))
   \<and> (\<exists>r. generateDefaultInput example_input_config = Inr (JObj r)
          \<and> map_of r ''debug'' = Some (JBool True)
          \<and> map_of r ''urls'' = Some (JArr [])
          \<and> map_of r ''query'' = None
          \<and> map_of r ''limit'' = Some (JNum 10))"
proof -
  have fs: "input_fields example_input_config =
      [(''debug'', JObj [(''type'', JStr ''boolean''), (''default'', JBool True),
                         (''prefill'', JBool False)]),
       (''urls'', JObj [(''type'', JStr ''array'')]),
       (''query'', JObj [(''type'', JStr ''string'')]),
       (''limit'', JObj [(''type'', JStr ''integer'')])]"
    by (simp add: example_input_config_def section_defs)
  have ov: "default_overrides example_input_config = [(''limit'', JNum 10)]"
    by (simp add: example_input_config_def default_overrides_def section_defs)
  have h1: "\<not> nullish example_input_config" by (simp add: example_input_config_def)
  have h2: "distinct (map fst (input_fields example_input_config))" by (simp add: fs)
  have h3: "\<forall>(n, fc) \<in> set (input_fields example_input_config). \<not> nullish fc"
    by (simp add: fs)
  have h4: "distinct (map fst (default_overrides example_input_config))" by (simp add: ov)
  from generateDefaultInput_precedence [OF h1 h2 h3 h4]
  obtain r where r: "generateDefaultInput example_input_config = Inr (JObj r)"
    and o: "\<forall>(k, v) \<in> set (default_overrides example_input_config).
           k \<noteq> ''__proto__'' \<longrightarrow> map_of r k = Some v"
    and f: "\<forall>(n, fc) \<in> set (input_fields example_input_config).
           n \<noteq> ''__proto__'' \<and> n \<notin> fst ` set (default_overrides example_input_config) \<longrightarrow>
           map_of r n =
             (if get_prop fc ''default'' \<noteq> JUndefined then Some (get_prop fc ''default'')
              else if get_prop fc ''prefill'' \<noteq> JUndefined then Some (get_prop fc ''prefill'')
              else if get_prop fc ''type'' = JStr ''boolean'' then Some (JBool False)
              else if get_prop fc ''type'' = JStr ''integer''
                      \<or> get_prop fc ''type'' = JStr ''number'' then Some (JNum 0)
              else if get_prop fc ''type'' = JStr ''array'' then Some (JArr [])
              else None)"
    by blast
  from o have l: "map_of r ''limit'' = Some (JNum 10)" by (simp add: ov)
  from f have d: "map_of r ''debug'' = Some (JBool True)"
    and u: "map_of r ''urls'' = Some (JArr [])"
    and q: "map_of r ''query'' = None"
    by (simp_all add: fs ov get_prop_JObj)
  have "\<exists>r. generateDefaultInput example_input_config = Inr (JObj r)
          \<and> map_of r ''debug'' = Some (JBool True)
          \<and> map_of r ''urls'' = Some (JArr [])
          \<and> map_of r ''query'' = None
          \<and> map_of r ''limit'' = Some (JNum 10)"
    using r d u q l by (intro exI [of _ r] conjI)
  moreover have "list_all (\<lambda>(n, fc). \<not> nullish fc) (input_fields example_input_config)"
    by (simp add: fs)
  ultimately show ?thesis using h1 h2 h4 by (intro conjI)
qed

text \<open>
  C6 (as stated). The claim says the zero value is chosen by the type inferType
  resolves, so that \<^verbatim>\<open>{array: true}\<close> yields the empty sequence. The code compares
  \<^verbatim>\<open>fieldConfig.type\<close> itself: for \<^verbatim>\<open>{array: true}\<close> inferType gives
  \<^verbatim>\<open>array\<close>, and the field gets no default.
\<close>

theorem generateDefaultInput_ignores_array_shorthand:
  "inferType (JObj [(''array'', JBool True)]) = Inr (JStr ''array'')
   \<and> generateDefaultInput
        (JObj [(''input'', JObj [(''fields'', JObj [(''tags'', JObj [(''array'', JBool True)])])])])
      = Inr (JObj [])"
  by (simp add: inferType_def generateDefaultInput_def derive_default_def get_prop_def
        own_member_def or_else_def new_object_def key_order_def is_digit_def)

text \<open>
  C6, amended: the default-value deriver reads the declared \<^verbatim>\<open>type\<close> and does not
  call inferType. For every input field declaration not named \<^verbatim>\<open>__proto__\<close>, with no
  \<^verbatim>\<open>default\<close> and no \<^verbatim>\<open>prefill\<close>, that input.defaults does not override, the zero value is chosen by
  the declared type, which is the type inferType resolves when \<^verbatim>\<open>type\<close> is set;
  when \<^verbatim>\<open>type\<close> is not set the field has no default, whatever \<^verbatim>\<open>array\<close> says.
\<close>

theorem generateDefaultInput_zero_value_from_declared_type:
  assumes "\<not> nullish cfg"
    and "distinct (map fst (input_fields cfg))"
    and "\<forall>(n, fc) \<in> set (input_fields cfg). \<not> nullish fc"
    and "(n, fc) \<in> set (input_fields cfg)"
    and "get_prop fc ''default'' = JUndefined"
    and "get_prop fc ''prefill'' = JUndefined"
    and "n \<notin> fst ` set (default_overrides cfg)"
    and "n \<noteq> ''__proto__''"
  shows "\<exists>r. generateDefaultInput cfg = Inr (JObj r)
     \<and> (truthy (get_prop fc ''type'') \<longrightarrow>
           inferType fc = Inr (get_prop fc ''type'')
           \<and> map_of r n =
               (if get_prop fc ''type'' = JStr ''boolean'' then Some (JBool False)
                else if get_prop fc ''type'' = JStr ''integer''
                        \<or> get_prop fc ''type'' = JStr ''number'' then Some (JNum 0)
                else if get_prop fc ''type'' = JStr ''array'' then Some (JArr [])
                else None))
     \<and> (\<not> truthy (get_prop fc ''type'') \<longrightarrow> map_of r n = None)"
proof -
  from derive_defaults_returns [OF assms(3)]
  obtain d where d: "derive_defaults (input_fields cfg) (new_object []) = Inr d" by blast
  let ?r = "obj_props (assign d (default_overrides cfg))"
  have r: "generateDefaultInput cfg = Inr (JObj ?r)"
    using assms(1) d by (rule generateDefaultInput_eq)
  from assms(3,4) have nn: "\<not> nullish fc" by auto
  have "map_of ?r n = map_of (obj_props d) n" using assms(7) by (rule assign_other)
  also have "\<dots> = (case derived_value fc of Some v \<Rightarrow> Some v | None \<Rightarrow> map_of (obj_props (new_object [])) n)"
    using d assms(2,4,8) by (rule derive_defaults_member)
  also have "\<dots> = derived_value fc" by (simp add: new_object_def split: option.splits)
  finally have v: "map_of ?r n = derived_value fc" .
  have a: "truthy (get_prop fc ''type'') \<longrightarrow>
           inferType fc = Inr (get_prop fc ''type'')
           \<and> map_of ?r n =
               (if get_prop fc ''type'' = JStr ''boolean'' then Some (JBool False)
                else if get_prop fc ''type'' = JStr ''integer''
                        \<or> get_prop fc ''type'' = JStr ''number'' then Some (JNum 0)
                else if get_prop fc ''type'' = JStr ''array'' then Some (JArr [])
                else None)"
    using nn assms(5,6) by (simp add: v derived_value_def inferType_def)
  have b: "\<not> truthy (get_prop fc ''type'') \<longrightarrow> map_of ?r n = None"
    using assms(5,6) by (auto simp: v derived_value_def)
  from r a b show ?thesis by blast
qed

theorem generateDefaultInput_zero_value_from_declared_type_witness:
  "\<not> nullish example_input_config
   \<and> distinct (map fst (input_fields example_input_config))
   \<and> list_all (\<lambda>(n, fc). \<not> nullish fc) (input_fields example_input_config)
   \<and> (''urls'', JObj [(''type'', JStr ''array'')]) \<in> set (input_fields example_input_config)
   \<and> get_prop (JObj [(''type'', JStr ''array'')]) ''default'' = JUndefined
   \<and> get_prop (JObj [(''type'', JStr ''array'')]) ''prefill'' = JUndefined
   \<and> ''urls'' \<notin> fst ` set (default_overrides example_input_config)
   \<and> ''urls'' \<noteq> ''__proto__''
   \<and> truthy (get_prop (JObj [(''type'', JStr ''array'')]) ''type'')
   \<and> inferType (JObj [(''type'', JStr ''array'')]) = Inr (JStr ''array'')
   \<and> (\<exists>r. generateDefaultInput example_input_config = Inr (JObj r)
          \<and> map_of r ''urls'' = Some (JArr []))"
proof -
  have fs: "input_fields example_input_config =
      [(''debug'', JObj [(''type'', JStr ''boolean''), (''default'', JBool True),
                         (''prefill'', JBool False)]),
       (''urls'', JObj [(''type'', JStr ''array'')]),
       (''query'', JObj [(''type'', JStr ''string'')]),
       (''limit'', JObj [(''type'', JStr ''integer'')])]"
    by (simp add: example_input_config_def section_defs)
  have ov: "default_overrides example_input_config = [(''limit'', JNum 10)]"
    by (simp add: example_input_config_def default_overrides_def section_defs)
  have h1: "\<not> nullish example_input_config" by (simp add: example_input_config_def)
  have h2: "distinct (map fst (input_fields example_input_config))" by (simp add: fs)
  have h3: "\<forall>(n, fc) \<in> set (input_fields example_input_config). \<not> nullish fc"
    by (simp add: fs)
  have h4: "(''urls'', JObj [(''type'', JStr ''array'')]) \<in> set (input_fields example_input_config)"
    by (simp add: fs)
  have h5: "get_prop (JObj [(''type'', JStr ''array'')]) ''default'' = JUndefined"
    by (simp add: get_prop_def own_member_def)
  have h6: "get_prop (JObj [(''type'', JStr ''array'')]) ''prefill'' = JUndefined"
    by (simp add: get_prop_def own_member_def)
  have h7: "''urls'' \<notin> fst ` set (default_overrides example_input_config)"
    by (simp add: ov)
  have ty: "get_prop (JObj [(''type'', JStr ''array'')]) ''type'' = JStr ''array''"
    by (simp add: get_prop_def own_member_def)
  have h8: "''urls'' \<noteq> ''__proto__''" by simp
  from generateDefaultInput_zero_value_from_declared_type [OF h1 h2 h3 h4 h5 h6 h7 h8]
  obtain r where r: "generateDefaultInput example_input_config = Inr (JObj r)"
    and t: "inferType (JObj [(''type'', JStr ''array'')]) = Inr (JStr ''array'')"
    and u: "map_of r ''urls'' = Some (JArr [])"
    by (auto simp: ty)
  have "\<exists>r. generateDefaultInput example_input_config = Inr (JObj r)
          \<and> map_of r ''urls'' = Some (JArr [])"
    using r u by (intro exI [of _ r] conjI)
  moreover have "list_all (\<lambda>(n, fc). \<not> nullish fc) (input_fields example_input_config)"
    by (simp add: fs)
  moreover have "truthy (get_prop (JObj [(''type'', JStr ''array'')]) ''type'')"
    by (simp add: ty)
  ultimately show ?thesis using h1 h2 h4 h5 h6 h7 h8 t by (intro conjI)
qed

text \<open>
  C7 (as stated). For the empty mapping \<^verbatim>\<open>{}\<close> the guard \<^verbatim>\<open>!this.config\<close> is
  false, since an object is truthy. validate goes on to the checks, and the one error
  it returns is the actor.name error the claim excludes.
\<close>

theorem validate_empty_mapping_checks_actor_name:
  "validate (JObj []) =
     Inr \<lparr>valid = False, errors = [''Missing required field: schemas.actor.name'']\<rparr>"
  by (simp add: validate_def get_prop_def own_member_def opt_prop_def or_else_def
        getAllDatasetFields_def new_object_def key_order_def)

text \<open>
  C7, amended: for every config that is \<^verbatim>\<open>null\<close> or \<^verbatim>\<open>undefined\<close> (any value that
  is not truthy), validate returns valid = false with the single error
  \<^verbatim>\<open>Config is empty or undefined\<close> and performs no further check. An empty mapping
  is not such a config: validate runs its checks on it and returns one error, the
  actor.name error.
\<close>

theorem validate_absent_config:
  "(\<not> truthy cfg \<longrightarrow>
      validate cfg = Inr \<lparr>valid = False, errors = [''Config is empty or undefined'']\<rparr>)
   \<and> validate (JObj []) =
       Inr \<lparr>valid = False, errors = [''Missing required field: schemas.actor.name'']\<rparr>"
  by (simp add: validate_def get_prop_def own_member_def opt_prop_def or_else_def
        getAllDatasetFields_def new_object_def key_order_def)

theorem validate_absent_config_witness:
  "\<not> truthy JNull
   \<and> validate JNull = Inr \<lparr>valid = False, errors = [''Config is empty or undefined'']\<rparr>"
  using validate_absent_config [of JNull] by simp

text \<open>
  C8. With neither actor.title nor actor.name, the fallback literal
  \<^verbatim>\<open>'Actor Input'\<close> is itself passed through toTitleCase, which lower-cases every
  letter after the first of a word: the title of the generated input schema is
  \<^verbatim>\<open>Actor input\<close>, not \<^verbatim>\<open>Actor Input\<close>.
\<close>

theorem generateInputSchema_fallback_title:
  "generateInputSchema (JObj []) =
     Inr (JObj [(''title'', JStr ''Actor input''),
                (''type'', JStr ''object''),
                (''schemaVersion'', JNum 1),
                (''properties'', JObj []),
                (''required'', JArr [])])"
  by (simp add: generateInputSchema_def get_prop_def own_member_def or_else_def key_order_def input_schema_title_def
        toTitleCase_def to_upper_def to_lower_def lower_letters_def upper_letters_def)

text \<open>
  C9. Whenever validate returns a result, its \<open>valid\<close> is true exactly when its
  \<open>errors\<close> are empty; and it does return a result on every well-shaped config and
  on every config that is \<^verbatim>\<open>null\<close> or \<^verbatim>\<open>undefined\<close>.
\<close>

theorem validate_valid_iff_no_errors:
  "(\<forall>r. validate cfg = Inr r \<longrightarrow> valid r = (errors r = []))
   \<and> (well_formed cfg \<or> \<not> truthy cfg \<longrightarrow> (\<exists>r. validate cfg = Inr r))"
proof (intro conjI allI impI)
  fix r
  assume "validate cfg = Inr r"
  then show "valid r = (errors r = [])"
    by (auto simp: validate_def Let_def split: if_splits sum.splits)
next
  assume "well_formed cfg \<or> \<not> truthy cfg"
  then show "\<exists>r. validate cfg = Inr r"
  proof
    assume "well_formed cfg"
    then show ?thesis by (rule validate_returns)
  next
    assume "\<not> truthy cfg"
    then show ?thesis by (simp add: validate_def)
  qed
qed

theorem validate_valid_iff_no_errors_witness:
  "well_formed (JObj [(''actor'', JObj [(''name'', JStr ''demo'')])])
   \<and> (\<exists>r. validate (JObj [(''actor'', JObj [(''name'', JStr ''demo'')])]) = Inr r
          \<and> valid r = (errors r = []))"
proof -
  have wf: "well_formed (JObj [(''actor'', JObj [(''name'', JStr ''demo'')])])"
    by (simp add: well_formed_def section_defs)
  with validate_valid_iff_no_errors [of "JObj [(''actor'', JObj [(''name'', JStr ''demo'')])]"]
  show ?thesis by blast
qed



end
